theory Spec2Isabelle
  imports Main
begin

section \<open>Python strings\<close>

text \<open>
  The agent works on the text of a completion with \<^verbatim>\<open>in\<close>, \<^verbatim>\<open>str.split\<close>,
  \<^verbatim>\<open>str.strip\<close> and \<^verbatim>\<open>str.replace\<close>. A string is a list of characters, each a
  code point below 256; the functions below compute what the Python methods compute
  on such text.
\<close>

definition startswith :: "string \<Rightarrow> string \<Rightarrow> bool" where
  "startswith s p = (take (length p) s = p)"

text \<open>\<^verbatim>\<open>sub in s\<close>: \<open>sub\<close> occurs in \<open>s\<close> as a contiguous substring.\<close>

fun py_in :: "string \<Rightarrow> string \<Rightarrow> bool" where
  "py_in sub [] = (sub = [])"
| "py_in sub (c # cs) = (startswith (c # cs) sub \<or> py_in sub cs)"

text \<open>
  \<^verbatim>\<open>s.split(sep)\<close> for a non-empty separator: the pieces between the occurrences of
  \<open>sep\<close>, found from left to right without overlap. \<open>acc\<close> is the piece being read.
  Python raises \<^verbatim>\<open>ValueError\<close> on an empty separator; the agent only splits on the
  literal marker, and \<open>split_from\<close> with an empty separator finds no occurrence.
\<close>

fun split_from :: "string \<Rightarrow> string \<Rightarrow> string \<Rightarrow> string list" where
  "split_from sep acc [] = [acc]"
| "split_from sep acc (c # cs) =
     (if sep \<noteq> [] \<and> startswith (c # cs) sep
      then acc # split_from sep [] (drop (length sep - 1) cs)
      else split_from sep (acc @ [c]) cs)"

definition py_split :: "string \<Rightarrow> string \<Rightarrow> string list" where
  "py_split s sep = split_from sep [] s"

text \<open>
  \<^verbatim>\<open>s.strip()\<close>: leading and trailing whitespace removed. A character is a code
  point below 256, and the whitespace characters are those for which \<^verbatim>\<open>str.isspace\<close>
  holds there: tab, line feed, vertical tab, form feed, carriage return, the four
  separators 0x1C to 0x1F, space, next line (0x85) and no-break space (0xA0).
\<close>

definition is_space :: "char \<Rightarrow> bool" where
  "is_space c = (c \<in> set [CHR 0x09, CHR 0x0A, CHR 0x0B, CHR 0x0C, CHR 0x0D,
                           CHR 0x1C, CHR 0x1D, CHR 0x1E, CHR 0x1F, CHR 0x20,
                           CHR 0x85, CHR 0xA0])"

definition py_strip :: "string \<Rightarrow> string" where
  "py_strip s = rev (dropWhile is_space (rev (dropWhile is_space s)))"

text \<open>
  \<^verbatim>\<open>s.replace(old, new)\<close>: every occurrence of \<open>old\<close>, from left to right without
  overlap, becomes \<open>new\<close>. With an empty \<open>old\<close> Python puts \<open>new\<close> before every
  character and at the end.
\<close>

fun replace_from :: "string \<Rightarrow> string \<Rightarrow> string \<Rightarrow> string" where
  "replace_from old new [] = []"
| "replace_from old new (c # cs) =
     (if startswith (c # cs) old
      then new @ replace_from old new (drop (length old - 1) cs)
      else c # replace_from old new cs)"

definition py_replace :: "string \<Rightarrow> string \<Rightarrow> string \<Rightarrow> string" where
  "py_replace s old new =
     (if old = [] then new @ concat (map (\<lambda>c. c # new) s) else replace_from old new s)"

text \<open>\<^verbatim>\<open>sep.join(pieces)\<close>.\<close>

fun py_join :: "string \<Rightarrow> string list \<Rightarrow> string" where
  "py_join sep [] = []"
| "py_join sep [p] = p"
| "py_join sep (p # q # ps) = p @ sep @ py_join sep (q # ps)"


section \<open>Data model\<close>

text \<open>Exceptions are values. The collaborators raise whatever they like
  (\<open>OtherError\<close>); the other constructors are the ones the agent's own statements raise.\<close>

datatype exn =
    KeyError string
  | IndexError
  | AttributeError
  | TypeError
  | ValueError string
  | JSONDecodeError
  | OtherError string

text \<open>What \<^verbatim>\<open>json.loads\<close> returns: \<^verbatim>\<open>None\<close>, a bool, an int, a float, a str, a list
  or a dict with string keys. A dict keeps its keys in insertion order, so it is an
  association list. A float is given by its \<^verbatim>\<open>repr\<close>: the agent never computes with
  one.\<close>

datatype pyval =
    PNone
  | PBool bool
  | PInt int
  | PFloat string
  | PStr string
  | PList "pyval list"
  | PDict "(string \<times> pyval) list"

text \<open>\<^verbatim>\<open>d[k] = v\<close> on a dict: an existing key keeps its place and takes the new
  value, a new key goes to the end.\<close>

fun dict_set :: "(string \<times> pyval) list \<Rightarrow> string \<Rightarrow> pyval \<Rightarrow> (string \<times> pyval) list" where
  "dict_set [] k v = [(k, v)]"
| "dict_set ((k', v') # d) k v = (if k' = k then (k, v) # d else (k', v') # dict_set d k v)"

text \<open>\<^verbatim>\<open>x['input'] = v\<close> on any value \<^verbatim>\<open>json.loads\<close> can return: only a dict
  supports assignment to a string key, everything else raises \<^verbatim>\<open>TypeError\<close>.\<close>

fun setitem :: "pyval \<Rightarrow> string \<Rightarrow> pyval \<Rightarrow> exn + pyval" where
  "setitem (PDict d) k v = Inr (PDict (dict_set d k v))"
| "setitem _ k v = Inl TypeError"

datatype role = User | Assistant | System

record chat_message =
  content :: string
  role :: role

text \<open>The three reasoning steps of \<^verbatim>\<open>llama_index.agent.react.types\<close>.\<close>

datatype reasoning_step =
    ActionReasoningStep string string "(string \<times> pyval) list"
  | ObservationReasoningStep string
  | ResponseReasoningStep string string

text \<open>A \<^verbatim>\<open>ChatResponse\<close>: \<open>raw_content\<close> is
  \<^verbatim>\<open>raw['choices'][0]['message']['content']\<close> and \<open>message_content\<close> is
  \<^verbatim>\<open>message.content\<close>, the two fields the agent reads and writes.\<close>

record chat_response =
  raw_content :: string
  message_content :: string

record agent_chat_response =
  response :: string

text \<open>
  What one call of \<^verbatim>\<open>chat\<close> can be observed to do, in order: the operations on the
  chat memory, the calls to the language model with the object each one returned (its
  address), the tool calls, and the lines written with \<^verbatim>\<open>logging.error\<close>.
\<close>

datatype event =
    MemorySet "chat_message list"
  | MemoryPut chat_message
  | LlmChat "chat_message list"
  | LlmResponse nat chat_response
  | ToolCall string "(string \<times> pyval) list"
  | LoggingError exn

text \<open>
  The state a call of \<^verbatim>\<open>chat\<close> works on: the messages held by \<^verbatim>\<open>self._memory\<close>,
  the \<^verbatim>\<open>ChatResponse\<close> objects alive (an object's address is its position; objects
  are only ever added), the state of the world outside the agent (the language-model
  backend and the tools), and the events so far.
\<close>

record 'w agent_state =
  memory :: "chat_message list"
  objects :: "chat_response list"
  world :: 'w
  events :: "event list"

text \<open>
  The agent's collaborators, fixed when it is constructed. They are inherited from
  \<^verbatim>\<open>llama_index\<close>, imported from the standard library or from \<^verbatim>\<open>prompts.py\<close>;
  none of them is defined in the agent's file, so each is a parameter:
  \<^item> \<open>memory_get\<close>: what \<^verbatim>\<open>self._memory.get()\<close> returns for the stored messages;
  \<^item> \<open>react_chat_formatter\<close>: \<^verbatim>\<open>self._react_chat_formatter.format\<close>;
  \<^item> \<open>llm_chat\<close>: \<^verbatim>\<open>self._llm.chat\<close>, which may raise and may answer the same prompt
    differently each time, hence the world;
  \<^item> \<open>extract_reasoning_step\<close>: the inherited \<^verbatim>\<open>_extract_reasoning_step\<close>, without the
    message content it returns first, which the agent drops;
  \<^item> \<open>tools_dict\<close>: \<^verbatim>\<open>self._tools_dict\<close>; a tool is its \<^verbatim>\<open>call\<close> on the keyword
    arguments, with the output already turned into text by \<^verbatim>\<open>str\<close>;
  \<^item> \<open>get_response\<close>: the inherited \<^verbatim>\<open>_get_response\<close>;
  \<^item> \<open>json_loads\<close>, \<open>json_dumps\<close>: \<^verbatim>\<open>json.loads\<close> and \<^verbatim>\<open>json.dumps\<close>;
  \<^item> \<open>QUERY_ENGINE_PROMPT_FORMATTER\<close>: the template of that name applied to a question
    with \<^verbatim>\<open>.format(question=...)\<close>; its only field is the question, so the call
    returns a text for every question;
  \<^item> \<open>QUERY_ENGINE_TOOL_ROUTER\<close>: the suffix of that name.
\<close>

record 'w agent =
  max_iterations :: int
  memory_get :: "chat_message list \<Rightarrow> chat_message list"
  react_chat_formatter :: "chat_message list \<Rightarrow> reasoning_step list \<Rightarrow> chat_message list"
  llm_chat :: "'w \<Rightarrow> chat_message list \<Rightarrow> (exn + chat_response) \<times> 'w"
  extract_reasoning_step :: "chat_response \<Rightarrow> exn + (reasoning_step list \<times> bool)"
  tools_dict :: "string \<Rightarrow> ('w \<Rightarrow> (string \<times> pyval) list \<Rightarrow> (exn + string) \<times> 'w) option"
  get_response :: "reasoning_step list \<Rightarrow> exn + agent_chat_response"
  json_loads :: "string \<Rightarrow> exn + pyval"
  json_dumps :: "pyval \<Rightarrow> string"
  QUERY_ENGINE_PROMPT_FORMATTER :: "string \<Rightarrow> string"
  QUERY_ENGINE_TOOL_ROUTER :: string


section \<open>The agent\<close>

definition memory_set :: "chat_message list \<Rightarrow> 'w agent_state \<Rightarrow> 'w agent_state" where
  "memory_set ms st = st\<lparr>memory := ms, events := events st @ [MemorySet ms]\<rparr>"

definition memory_put :: "chat_message \<Rightarrow> 'w agent_state \<Rightarrow> 'w agent_state" where
  "memory_put m st = st\<lparr>memory := memory st @ [m], events := events st @ [MemoryPut m]\<rparr>"

definition ACTION_INPUT :: string where
  "ACTION_INPUT = ''Action Input:''"

text \<open>
  \<^verbatim>\<open>_process_actions\<close>. \<open>output\<close> is the address of the response object. The step is
  read from it by the inherited parser; a terminal step is returned as it is.
  Otherwise the last step's \<^verbatim>\<open>action\<close> is looked up in \<^verbatim>\<open>self._tools_dict\<close> with
  \<^verbatim>\<open>[]\<close>, the tool is called, and its output is appended as an observation. None of
  these statements is inside a \<^verbatim>\<open>try\<close>, and the \<^verbatim>\<open>with\<close> block of the callback
  event, which is not modelled, lets exceptions through: an empty step list raises
  \<^verbatim>\<open>IndexError\<close>, a last step without an \<^verbatim>\<open>action\<close> attribute raises
  \<^verbatim>\<open>AttributeError\<close>, a name that is not a key raises \<^verbatim>\<open>KeyError\<close>, and whatever
  the tool raises goes on to the caller.
\<close>

definition process_actions ::
  "'w agent \<Rightarrow> nat \<Rightarrow> 'w agent_state \<Rightarrow> (exn + reasoning_step list \<times> bool) \<times> 'w agent_state" where
  "process_actions env output st =
     (case extract_reasoning_step env (objects st ! output) of
        Inl e \<Rightarrow> (Inl e, st)
      | Inr (current_reasoning, is_done) \<Rightarrow>
          if is_done then (Inr (current_reasoning, True), st)
          else if current_reasoning = [] then (Inl IndexError, st)
          else (case last current_reasoning of
                  ActionReasoningStep thought action action_input \<Rightarrow>
                    (case tools_dict env action of
                       None \<Rightarrow> (Inl (KeyError action), st)
                     | Some tool \<Rightarrow>
                         (case tool (world st) action_input of
                            (Inl e, w) \<Rightarrow>
                              (Inl e, st\<lparr>world := w,
                                         events := events st @ [ToolCall action action_input]\<rparr>)
                          | (Inr tool_output, w) \<Rightarrow>
                              (Inr (current_reasoning @ [ObservationReasoningStep tool_output],
                                    False),
                               st\<lparr>world := w,
                                  events := events st @ [ToolCall action action_input]\<rparr>)))
                | _ \<Rightarrow> (Inl AttributeError, st)))"

text \<open>
  The body of the \<^verbatim>\<open>try\<close> up to the new text (lines 60 to 65): parse the extracted
  part, build the augmented message, store it under \<^verbatim>\<open>'input'\<close>, and replace the
  extracted part in the content by the dumped record. \<^verbatim>\<open>json.loads\<close> may raise, and
  so does the assignment when the parsed value is not a dict; \<^verbatim>\<open>json.dumps\<close> of a
  value that \<^verbatim>\<open>json.loads\<close> returned, with one more string in it, does not.
\<close>

definition modify_action_input :: "'w agent \<Rightarrow> string \<Rightarrow> string \<Rightarrow> string \<Rightarrow> exn + string" where
  "modify_action_input env message response_content action_input_part =
     (case json_loads env action_input_part of
        Inl e \<Rightarrow> Inl e
      | Inr action_input_json \<Rightarrow>
          (let augmented_message = QUERY_ENGINE_PROMPT_FORMATTER env message in
           case setitem action_input_json ''input'' (PStr augmented_message) of
             Inl e \<Rightarrow> Inl e
           | Inr action_input_json' \<Rightarrow>
               Inr (py_replace response_content action_input_part
                      (json_dumps env action_input_json'))))"

text \<open>
  Lines 49 to 71 on the copy at address \<open>copy\<close>: when the marker occurs in the raw
  content, the part after the first marker is extracted and modified; on success both
  content fields of the copy are overwritten, on an exception the error is logged and
  the copy stays as it is. \<^verbatim>\<open>split(...)[1]\<close> is outside the \<^verbatim>\<open>try\<close>.
\<close>

definition enforce_question ::
  "'w agent \<Rightarrow> string \<Rightarrow> nat \<Rightarrow> 'w agent_state \<Rightarrow> exn + 'w agent_state" where
  "enforce_question env message copy st =
     (let response_content = raw_content (objects st ! copy) in
      if py_in ACTION_INPUT response_content then
        (case py_split response_content ACTION_INPUT of
           _ # piece # _ \<Rightarrow>
             (let action_input_part = py_strip piece in
              case modify_action_input env message response_content action_input_part of
                Inr response_content' \<Rightarrow>
                  Inr (st\<lparr>objects := (objects st)[copy := (objects st ! copy)
                            \<lparr>raw_content := response_content',
                             message_content := response_content'\<rparr>]\<rparr>)
              | Inl e \<Rightarrow> Inr (st\<lparr>events := events st @ [LoggingError e]\<rparr>))
         | _ \<Rightarrow> Inl IndexError)
      else Inr st)"

text \<open>
  A new object goes to the end of the store; \<^verbatim>\<open>copy.deepcopy\<close> makes a new object
  with the value of the one it is given and shares nothing with it. The only addresses
  the agent reads or writes are the two it has just been given by \<open>new_object\<close>, so
  every \<open>objects st ! a\<close> below is in range.
\<close>

definition new_object :: "chat_response \<Rightarrow> 'w agent_state \<Rightarrow> nat \<times> 'w agent_state" where
  "new_object v st = (length (objects st), st\<lparr>objects := objects st @ [v]\<rparr>)"

definition deepcopy :: "nat \<Rightarrow> 'w agent_state \<Rightarrow> nat \<times> 'w agent_state" where
  "deepcopy a st = new_object (objects st ! a) st"

text \<open>
  Lines 37 to 71 of a round: format the prompt, call the model, which returns a new
  object or raises, deep-copy the object and enforce the question on the copy. The
  result is the address of the copy, \<^verbatim>\<open>chat_response_copy\<close>.
\<close>

definition prepare_output ::
  "'w agent \<Rightarrow> string \<Rightarrow> reasoning_step list \<Rightarrow> 'w agent_state \<Rightarrow> (exn + nat) \<times> 'w agent_state" where
  "prepare_output env message current_reasoning st =
     (let input_chat = react_chat_formatter env (memory_get env (memory st)) current_reasoning in
      case llm_chat env (world st) input_chat of
        (Inl e, w) \<Rightarrow> (Inl e, st\<lparr>world := w, events := events st @ [LlmChat input_chat]\<rparr>)
      | (Inr r, w) \<Rightarrow>
          (case new_object r (st\<lparr>world := w, events := events st @ [LlmChat input_chat]\<rparr>) of
             (chat_response, st1) \<Rightarrow>
               (case deepcopy chat_response
                       (st1\<lparr>events := events st1 @ [LlmResponse chat_response r]\<rparr>) of
                  (chat_response_copy, st2) \<Rightarrow>
                    (case enforce_question env message chat_response_copy st2 of
                       Inl e \<Rightarrow> (Inl e, st2)
                     | Inr st3 \<Rightarrow> (Inr chat_response_copy, st3)))))"

text \<open>One round of the loop (lines 37 to 74): the copy is prepared and processed.\<close>

definition chat_iteration ::
  "'w agent \<Rightarrow> string \<Rightarrow> reasoning_step list \<Rightarrow> 'w agent_state
     \<Rightarrow> (exn + reasoning_step list \<times> bool) \<times> 'w agent_state" where
  "chat_iteration env message current_reasoning st =
     (case prepare_output env message current_reasoning st of
        (Inl e, st') \<Rightarrow> (Inl e, st')
      | (Inr chat_response_copy, st') \<Rightarrow> process_actions env chat_response_copy st')"

text \<open>
  The \<^verbatim>\<open>for\<close> loop over \<^verbatim>\<open>range(self._max_iterations)\<close> with \<open>n\<close> rounds left:
  the steps of a round are appended to \<open>current_reasoning\<close>, and a terminal round
  leaves the loop.
\<close>

fun chat_loop ::
  "'w agent \<Rightarrow> string \<Rightarrow> nat \<Rightarrow> reasoning_step list \<Rightarrow> 'w agent_state
     \<Rightarrow> (exn + reasoning_step list) \<times> 'w agent_state" where
  "chat_loop env message 0 current_reasoning st = (Inr current_reasoning, st)"
| "chat_loop env message (Suc n) current_reasoning st =
     (case chat_iteration env message current_reasoning st of
        (Inl e, st') \<Rightarrow> (Inl e, st')
      | (Inr (reasoning_steps, is_done), st') \<Rightarrow>
          if is_done then (Inr (current_reasoning @ reasoning_steps), st')
          else chat_loop env message n (current_reasoning @ reasoning_steps) st')"

text \<open>
  \<^verbatim>\<open>chat\<close>. Lines 24 to 30 (\<open>turn_start\<close>) replace the memory when a history is
  given and put the user's message with the router suffix. Then the loop runs;
  \<^verbatim>\<open>range\<close> of a number below one is empty, hence \<open>nat\<close>. Lines 80 to 84 take the
  response from the inherited \<^verbatim>\<open>_get_response\<close> and put it into the memory. The
  result is the response or the exception that left \<^verbatim>\<open>chat\<close>, with the state it left
  behind. Nothing in \<^verbatim>\<open>chat\<close> catches an exception of the loop or of
  \<^verbatim>\<open>_get_response\<close>; the \<^verbatim>\<open>trace_method\<close> decorator only brackets the call with
  tracing events.
\<close>

definition turn_start ::
  "'w agent \<Rightarrow> string \<Rightarrow> chat_message list option \<Rightarrow> 'w agent_state \<Rightarrow> 'w agent_state" where
  "turn_start env message chat_history st =
     (let st1 = (case chat_history of None \<Rightarrow> st | Some h \<Rightarrow> memory_set h st);
          message_with_tool_description = message @ [CHR 0x0A] @ QUERY_ENGINE_TOOL_ROUTER env
      in memory_put \<lparr>content = message_with_tool_description, role = User\<rparr> st1)"

definition chat ::
  "'w agent \<Rightarrow> string \<Rightarrow> chat_message list option \<Rightarrow> 'w agent_state
     \<Rightarrow> (exn + agent_chat_response) \<times> 'w agent_state" where
  "chat env message chat_history st =
     (case chat_loop env message (nat (max_iterations env)) []
             (turn_start env message chat_history st) of
        (Inl e, st') \<Rightarrow> (Inl e, st')
      | (Inr current_reasoning, st') \<Rightarrow>
          (case get_response env current_reasoning of
             Inl e \<Rightarrow> (Inl e, st')
           | Inr r \<Rightarrow> (Inr r, memory_put \<lparr>content = response r, role = Assistant\<rparr> st')))"



section \<open>Observing a run\<close>

text \<open>The prompt of a round.\<close>

definition input_chat :: "'w agent \<Rightarrow> reasoning_step list \<Rightarrow> 'w agent_state \<Rightarrow> chat_message list" where
  "input_chat env current_reasoning st =
     react_chat_formatter env (memory_get env (memory st)) current_reasoning"

text \<open>
  The state of a round once the model has returned \<open>r\<close> and left the world \<open>w\<close>, and
  the object has been deep-copied: the object returned is at address
  \<open>length (objects st)\<close> and its copy at the next address.
\<close>

definition copied ::
  "'w agent \<Rightarrow> reasoning_step list \<Rightarrow> 'w agent_state \<Rightarrow> chat_response \<Rightarrow> 'w \<Rightarrow> 'w agent_state" where
  "copied env current_reasoning st r w =
     st\<lparr>world := w,
        events := events st @ [LlmChat (input_chat env current_reasoning st),
                               LlmResponse (length (objects st)) r],
        objects := objects st @ [r, r]\<rparr>"

text \<open>Counting the calls to the model and the puts in a list of events.\<close>

fun is_llm_chat :: "event \<Rightarrow> bool" where
  "is_llm_chat (LlmChat p) = True"
| "is_llm_chat _ = False"

fun is_memory_put :: "event \<Rightarrow> bool" where
  "is_memory_put (MemoryPut m) = True"
| "is_memory_put _ = False"

fun is_llm_response :: "event \<Rightarrow> bool" where
  "is_llm_response (LlmResponse a r) = True"
| "is_llm_response _ = False"

fun is_tool_or_log :: "event \<Rightarrow> bool" where
  "is_tool_or_log (ToolCall action action_input) = True"
| "is_tool_or_log (LoggingError e) = True"
| "is_tool_or_log _ = False"

definition llm_calls :: "event list \<Rightarrow> nat" where
  "llm_calls evs = length (filter is_llm_chat evs)"

definition memory_puts :: "event list \<Rightarrow> nat" where
  "memory_puts evs = length (filter is_memory_put evs)"

text \<open>
  \<open>after_rounds env message j n cr st\<close>: where the loop stands after \<open>j\<close> more rounds,
  when it starts with \<open>n\<close> rounds left, the trace \<open>cr\<close> and the state \<open>st\<close>, and none
  of the \<open>j\<close> rounds raises or is terminal: the rounds left, the trace and the state.
\<close>

fun after_rounds ::
  "'w agent \<Rightarrow> string \<Rightarrow> nat \<Rightarrow> nat \<Rightarrow> reasoning_step list \<Rightarrow> 'w agent_state
     \<Rightarrow> (nat \<times> reasoning_step list \<times> 'w agent_state) option" where
  "after_rounds env message 0 n cr st = Some (n, cr, st)"
| "after_rounds env message (Suc j) 0 cr st = None"
| "after_rounds env message (Suc j) (Suc n) cr st =
     (case chat_iteration env message cr st of
        (Inr (reasoning_steps, False), st') \<Rightarrow>
          after_rounds env message j n (cr @ reasoning_steps) st'
      | _ \<Rightarrow> None)"

text \<open>The kinds of step in a trace.\<close>

fun is_action :: "reasoning_step \<Rightarrow> bool" where
  "is_action (ActionReasoningStep thought action action_input) = True"
| "is_action _ = False"

fun is_observation :: "reasoning_step \<Rightarrow> bool" where
  "is_observation (ObservationReasoningStep observation) = True"
| "is_observation _ = False"

fun is_response :: "reasoning_step \<Rightarrow> bool" where
  "is_response (ResponseReasoningStep thought r) = True"
| "is_response _ = False"

text \<open>A trace of whole rounds: an action and its observation, again and again.\<close>

fun action_observation_pairs :: "reasoning_step list \<Rightarrow> bool" where
  "action_observation_pairs [] = True"
| "action_observation_pairs (a # b # steps) =
     (is_action a \<and> is_observation b \<and> action_observation_pairs steps)"
| "action_observation_pairs [a] = False"


section \<open>An agent to run\<close>

text \<open>
  A small agent on which the statements below are run. Its JSON codec reads and
  writes flat objects whose keys and values are strings without escapes, as
  \<^verbatim>\<open>json.loads\<close> and \<^verbatim>\<open>json.dumps\<close> do on such texts; any other text is
  rejected, and the runs below use no other JSON text.
\<close>

definition is_json_ws :: "char \<Rightarrow> bool" where
  "is_json_ws c = (c \<in> set [CHR 0x20, CHR 0x09, CHR 0x0A, CHR 0x0D])"

fun read_string :: "string \<Rightarrow> (string \<times> string) option" where
  "read_string [] = None"
| "read_string (c # cs) =
     (if c = CHR 0x22 then Some ([], cs)
      else if c = CHR 0x5C \<or> (of_char c :: nat) < 0x20 then None
      else (case read_string cs of None \<Rightarrow> None | Some (s, r) \<Rightarrow> Some (c # s, r)))"

definition read_quoted :: "string \<Rightarrow> (string \<times> string) option" where
  "read_quoted s =
     (case dropWhile is_json_ws s of
        [] \<Rightarrow> None
      | c # cs \<Rightarrow> if c = CHR 0x22 then read_string cs else None)"

definition read_char :: "char \<Rightarrow> string \<Rightarrow> string option" where
  "read_char x s =
     (case dropWhile is_json_ws s of
        [] \<Rightarrow> None
      | c # cs \<Rightarrow> if c = x then Some cs else None)"

definition read_member :: "string \<Rightarrow> ((string \<times> pyval) \<times> string) option" where
  "read_member s =
     (case read_quoted s of
        None \<Rightarrow> None
      | Some (k, r1) \<Rightarrow>
          (case read_char CHR '':'' r1 of
             None \<Rightarrow> None
           | Some r2 \<Rightarrow>
               (case read_quoted r2 of
                  None \<Rightarrow> None
                | Some (v, r3) \<Rightarrow> Some ((k, PStr v), r3))))"

fun read_members ::
  "nat \<Rightarrow> (string \<times> pyval) list \<Rightarrow> string \<Rightarrow> (string \<times> pyval) list option" where
  "read_members 0 d s = None"
| "read_members (Suc n) d s =
     (case read_member s of
        None \<Rightarrow> None
      | Some ((k, v), r) \<Rightarrow>
          (case read_char CHR '','' r of
             Some r' \<Rightarrow> read_members n (dict_set d k v) r'
           | None \<Rightarrow>
               (case read_char CHR ''}'' r of
                  Some r' \<Rightarrow>
                    if dropWhile is_json_ws r' = [] then Some (dict_set d k v) else None
                | None \<Rightarrow> None)))"

definition flat_loads :: "string \<Rightarrow> exn + pyval" where
  "flat_loads s =
     (case read_char CHR ''{'' s of
        None \<Rightarrow> Inl JSONDecodeError
      | Some r \<Rightarrow>
          (case read_char CHR ''}'' r of
             Some r' \<Rightarrow>
               if dropWhile is_json_ws r' = [] then Inr (PDict []) else Inl JSONDecodeError
           | None \<Rightarrow>
               (case read_members (length r) [] r of
                  None \<Rightarrow> Inl JSONDecodeError
                | Some d \<Rightarrow> Inr (PDict d))))"

fun dump_member :: "string \<times> pyval \<Rightarrow> string" where
  "dump_member (k, PStr v) = [CHR 0x22] @ k @ [CHR 0x22] @ '': '' @ [CHR 0x22] @ v @ [CHR 0x22]"
| "dump_member (k, v) = [CHR 0x22] @ k @ [CHR 0x22] @ '': null''"

fun flat_dumps :: "pyval \<Rightarrow> string" where
  "flat_dumps (PDict d) = ''{'' @ py_join '', '' (map dump_member d) @ ''}''"
| "flat_dumps v = ''null''"

text \<open>
  A parser for the two shapes of a completion: a thought and an answer, or a thought,
  an action and an action input that is a JSON object. It returns one step, and is
  done on an answer.
\<close>

definition example_extract :: "chat_response \<Rightarrow> exn + (reasoning_step list \<times> bool)" where
  "example_extract out =
     (let c = message_content out in
      case py_split c ''Answer:'' of
        thought # answer # rest \<Rightarrow>
          Inr ([ResponseReasoningStep (py_strip thought) (py_strip answer)], True)
      | _ \<Rightarrow>
          (case py_split c ''Action:'' of
             [thought, rest] \<Rightarrow>
               (case py_split rest ''Action Input:'' of
                  [action, action_input] \<Rightarrow>
                    (case flat_loads (py_strip action_input) of
                       Inr (PDict d) \<Rightarrow>
                         Inr ([ActionReasoningStep (py_strip thought) (py_strip action) d],
                              False)
                     | _ \<Rightarrow> Inl (ValueError c))
                | _ \<Rightarrow> Inl (ValueError c))
           | _ \<Rightarrow> Inl (ValueError c)))"

text \<open>The backend answers with the next completion of a script, which is the world,
  and fails when the script is used up.\<close>

definition scripted_llm ::
  "string list \<Rightarrow> chat_message list \<Rightarrow> (exn + chat_response) \<times> string list" where
  "scripted_llm w p =
     (case w of
        [] \<Rightarrow> (Inl (OtherError ''backend unavailable''), [])
      | c # cs \<Rightarrow> (Inr \<lparr>raw_content = c, message_content = c\<rparr>, cs))"

text \<open>
  The response is taken as the inherited \<^verbatim>\<open>_get_response\<close> of \<^verbatim>\<open>llama_index\<close>
  takes it: no step and a trace as long as \<^verbatim>\<open>max_iterations\<close> raise
  \<^verbatim>\<open>ValueError\<close>; otherwise it is the \<^verbatim>\<open>response\<close> attribute of the last step,
  which only a response step has.
\<close>

definition base_get_response :: "int \<Rightarrow> reasoning_step list \<Rightarrow> exn + agent_chat_response" where
  "base_get_response k current_reasoning =
     (if current_reasoning = [] then Inl (ValueError ''No reasoning steps were taken.'')
      else if int (length current_reasoning) = k then Inl (ValueError ''Reached max iterations.'')
      else (case last current_reasoning of
              ResponseReasoningStep thought r \<Rightarrow> Inr \<lparr>response = r\<rparr>
            | _ \<Rightarrow> Inl AttributeError))"

text \<open>Two tools: one that answers and one that raises.\<close>

definition example_tools ::
  "string \<Rightarrow> (string list \<Rightarrow> (string \<times> pyval) list \<Rightarrow> (exn + string) \<times> string list) option" where
  "example_tools name =
     (if name = ''query_tool'' then Some (\<lambda>w kwargs. (Inr ''Paris'', w))
      else if name = ''broken_tool'' then Some (\<lambda>w kwargs. (Inl (OtherError ''timeout''), w))
      else None)"

definition example_agent :: "int \<Rightarrow> string list agent" where
  "example_agent k =
     \<lparr>max_iterations = k,
      memory_get = (\<lambda>ms. ms),
      react_chat_formatter = (\<lambda>ms steps. ms),
      llm_chat = scripted_llm,
      extract_reasoning_step = example_extract,
      tools_dict = example_tools,
      get_response = base_get_response k,
      json_loads = flat_loads,
      json_dumps = flat_dumps,
      QUERY_ENGINE_PROMPT_FORMATTER = (\<lambda>question. ''Answer thoroughly: '' @ question),
      QUERY_ENGINE_TOOL_ROUTER = ''Use the query tool.''\<rparr>"

definition start :: "string list \<Rightarrow> string list agent_state" where
  "start script = \<lparr>memory = [], objects = [], world = script, events = []\<rparr>"

definition question :: string where
  "question = ''What is the capital of France?''"

definition action_completion :: "string \<Rightarrow> string \<Rightarrow> string" where
  "action_completion tool action_input =
     ''Thought: look it up. Action: '' @ tool @ '' Action Input: '' @ action_input"

definition france_input :: string where
  "france_input = [CHR 0x7B, CHR 0x22] @ ''input'' @ [CHR 0x22] @ '': '' @ [CHR 0x22]
                    @ ''capital of France'' @ [CHR 0x22, CHR 0x7D]"

definition france_script :: "string list" where
  "france_script = [action_completion ''query_tool'' france_input,
                    ''Thought: I know. Answer: Paris'']"

text \<open>Other scripts: the model asks for a tool that is not registered, for a tool that
  raises, and for the query tool again and again.\<close>

definition answer_completion :: string where
  "answer_completion = ''Thought: I know. Answer: Paris''"

definition unknown_tool_script :: "string list" where
  "unknown_tool_script = [action_completion ''no_such_tool'' france_input, answer_completion]"

definition broken_tool_script :: "string list" where
  "broken_tool_script = [action_completion ''broken_tool'' france_input, answer_completion]"

definition endless_script :: "string list" where
  "endless_script = replicate 5 (action_completion ''query_tool'' france_input)"

text \<open>
  Other completions: an action input that is not JSON, a JSON record followed by
  more text, a JSON record that the thought quotes as well, a JSON record between a
  next-line character and a no-break space, and a JSON record without an
  \<^verbatim>\<open>input\<close> key.
\<close>

definition not_json_completion :: string where
  "not_json_completion = action_completion ''query_tool'' ''capital of France''"

definition trailing_completion :: string where
  "trailing_completion =
     action_completion ''query_tool'' (france_input @ [CHR 0x0A] @ ''Observation: Paris'')"

definition quoting_completion :: string where
  "quoting_completion =
     ''Thought: send '' @ france_input @ ''. Action: query_tool Action Input: '' @ france_input"

definition padded_completion :: string where
  "padded_completion =
     action_completion ''query_tool'' ([CHR 0x85] @ france_input @ [CHR 0xA0])"

definition topic_input :: string where
  "topic_input = [CHR 0x7B, CHR 0x22] @ ''topic'' @ [CHR 0x22] @ '': '' @ [CHR 0x22]
                   @ ''France'' @ [CHR 0x22, CHR 0x7D]"

definition asked :: "string list \<Rightarrow> string list agent_state" where
  "asked script = turn_start (example_agent 10) question None (start script)"

definition completion :: "string \<Rightarrow> chat_response" where
  "completion c = \<lparr>raw_content = c, message_content = c\<rparr>"


section \<open>Splitting, joining and replacing\<close>

lemma split_from_not_Nil: "split_from sep acc s \<noteq> []"
  by (induction s arbitrary: acc) simp_all

lemma py_in_split_from:
  "sep \<noteq> [] \<Longrightarrow> py_in sep s \<Longrightarrow> \<exists>a b r. split_from sep acc s = a # b # r"
proof (induction sep acc s rule: split_from.induct)
  case (1 sep acc)
  then show ?case by simp
next
  case (2 sep acc c cs)
  show ?case
  proof (cases "startswith (c # cs) sep")
    case True
    obtain b r where "split_from sep [] (drop (length sep - 1) cs) = b # r"
      using split_from_not_Nil[of sep "[]" "drop (length sep - 1) cs"]
      by (cases "split_from sep [] (drop (length sep - 1) cs)") auto
    with True "2.prems" show ?thesis by simp
  next
    case False
    with "2.prems" have "py_in sep cs" by simp
    with "2.IH"(2) False "2.prems" show ?thesis by simp
  qed
qed

lemma ACTION_INPUT_not_Nil: "ACTION_INPUT \<noteq> []"
  by (simp add: ACTION_INPUT_def)

lemma py_in_split:
  "py_in ACTION_INPUT s \<Longrightarrow> \<exists>a b r. py_split s ACTION_INPUT = a # b # r"
  unfolding py_split_def by (rule py_in_split_from[OF ACTION_INPUT_not_Nil])

lemma py_join_Cons: "ps \<noteq> [] \<Longrightarrow> py_join sep (p # ps) = p @ sep @ py_join sep ps"
  by (cases ps) auto

lemma startswith_decompose:
  "sep \<noteq> [] \<Longrightarrow> startswith (c # cs) sep \<Longrightarrow> c # cs = sep @ drop (length sep - 1) cs"
proof -
  assume ne: "sep \<noteq> []" and sw: "startswith (c # cs) sep"
  have "c # cs = take (length sep) (c # cs) @ drop (length sep) (c # cs)" by simp
  also have "take (length sep) (c # cs) = sep" using sw by (simp add: startswith_def)
  also have "drop (length sep) (c # cs) = drop (length sep - 1) cs"
    using ne by (cases sep) auto
  finally show ?thesis .
qed

lemma join_split_from:
  "sep \<noteq> [] \<Longrightarrow> py_join sep (split_from sep acc s) = acc @ s"
proof (induction sep acc s rule: split_from.induct)
  case (1 sep acc)
  then show ?case by simp
next
  case (2 sep acc c cs)
  show ?case
  proof (cases "startswith (c # cs) sep")
    case True
    from "2.IH"(1) True "2.prems"
    have "py_join sep (split_from sep [] (drop (length sep - 1) cs)) = drop (length sep - 1) cs"
      by simp
    moreover have "split_from sep acc (c # cs) = acc # split_from sep [] (drop (length sep - 1) cs)"
      using True "2.prems" by simp
    ultimately have "py_join sep (split_from sep acc (c # cs))
                       = acc @ sep @ drop (length sep - 1) cs"
      by (simp add: py_join_Cons split_from_not_Nil)
    also have "sep @ drop (length sep - 1) cs = c # cs"
      using startswith_decompose[OF "2.prems" True] by simp
    finally show ?thesis .
  next
    case False
    with "2.IH"(2) "2.prems" show ?thesis by simp
  qed
qed

lemma join_split_replace:
  "old \<noteq> [] \<Longrightarrow> py_join new (split_from old acc s) = acc @ replace_from old new s"
proof (induction old acc s rule: split_from.induct)
  case (1 sep acc)
  then show ?case by simp
next
  case (2 sep acc c cs)
  show ?case
  proof (cases "startswith (c # cs) sep")
    case True
    from "2.IH"(1) True "2.prems"
    have "py_join new (split_from sep [] (drop (length sep - 1) cs))
            = replace_from sep new (drop (length sep - 1) cs)"
      by simp
    with True "2.prems" show ?thesis
      by (simp add: py_join_Cons split_from_not_Nil)
  next
    case False
    with "2.IH"(2) "2.prems" show ?thesis by simp
  qed
qed

lemma split_from_empty_sep: "split_from [] acc s = [acc @ s]"
  by (induction s arbitrary: acc) simp_all

lemma split_once:
  assumes "py_split s old = [pre, post]"
  shows "s = pre @ old @ post" and "py_replace s old new = pre @ new @ post"
proof -
  have ne: "old \<noteq> []"
    using assms by (auto simp: py_split_def split_from_empty_sep)
  from join_split_from[OF ne, of "[]" s] assms show "s = pre @ old @ post"
    by (simp add: py_split_def)
  from join_split_replace[OF ne, of new "[]" s] assms ne
  show "py_replace s old new = pre @ new @ post"
    by (simp add: py_split_def py_replace_def)
qed

text \<open>The two whitespace characters above 0x7F are stripped like the ASCII ones.\<close>

lemma py_strip_latin1:
  "py_strip ([CHR 0xA0, CHR 0x85, CHR 0x20] @ ''a b'' @ [CHR 0x0A, CHR 0x85, CHR 0xA0]) = ''a b''"
  by code_simp


section \<open>What a round does to the state\<close>

subsection \<open>Events\<close>

lemma llm_calls_append: "llm_calls (a @ b) = llm_calls a + llm_calls b"
  by (simp add: llm_calls_def)

lemma memory_puts_append: "memory_puts (a @ b) = memory_puts a + memory_puts b"
  by (simp add: memory_puts_def)

lemma quiet_no_llm_chat: "list_all is_tool_or_log evs \<Longrightarrow> filter is_llm_chat evs = []"
proof (induction evs)
  case Nil
  then show ?case by simp
next
  case (Cons e evs)
  then show ?case by (cases e) simp_all
qed

lemma quiet_no_memory_put: "list_all is_tool_or_log evs \<Longrightarrow> filter is_memory_put evs = []"
proof (induction evs)
  case Nil
  then show ?case by simp
next
  case (Cons e evs)
  then show ?case by (cases e) simp_all
qed

lemma quiet_no_llm_response: "list_all is_tool_or_log evs \<Longrightarrow> LlmResponse a r \<notin> set evs"
  by (induction evs) auto

subsection \<open>The parts of a round\<close>

lemma process_actions_effect:
  assumes "process_actions env out st = (r, st')"
  shows "memory st' = memory st \<and> objects st' = objects st
         \<and> (\<exists>evs. events st' = events st @ evs \<and> list_all is_tool_or_log evs)"
  using assms
  by (auto simp: process_actions_def
      split: sum.splits prod.splits if_splits reasoning_step.splits option.splits)

lemma enforce_question_total:
  "\<exists>st'. enforce_question env message c st = Inr st'"
proof (cases "py_in ACTION_INPUT (raw_content (objects st ! c))")
  case True
  from py_in_split[OF this] obtain a b r
    where "py_split (raw_content (objects st ! c)) ACTION_INPUT = a # b # r" by blast
  with True show ?thesis
    by (simp add: enforce_question_def Let_def split: sum.splits)
next
  case False
  then show ?thesis by (simp add: enforce_question_def)
qed

lemma enforce_question_effect:
  assumes "enforce_question env message c st = Inr st'"
  shows "memory st' = memory st \<and> world st' = world st
         \<and> length (objects st') = length (objects st)
         \<and> (\<forall>a. a \<noteq> c \<longrightarrow> objects st' ! a = objects st ! a)
         \<and> (\<exists>evs. events st' = events st @ evs \<and> list_all is_tool_or_log evs)"
  using assms
  by (auto simp: enforce_question_def Let_def split: sum.splits if_splits list.splits)

lemma prepare_output_Inl:
  assumes "llm_chat env (world st) (input_chat env cr st) = (Inl e, w)"
  shows "prepare_output env message cr st =
           (Inl e, st\<lparr>world := w, events := events st @ [LlmChat (input_chat env cr st)]\<rparr>)"
  using assms by (simp add: prepare_output_def input_chat_def)

lemma prepare_output_Inr:
  assumes "llm_chat env (world st) (input_chat env cr st) = (Inr resp, w)"
  shows "\<exists>st'. enforce_question env message (Suc (length (objects st))) (copied env cr st resp w) = Inr st'
           \<and> prepare_output env message cr st = (Inr (Suc (length (objects st))), st')"
proof -
  obtain st' where e: "enforce_question env message (Suc (length (objects st))) (copied env cr st resp w) = Inr st'"
    using enforce_question_total by blast
  have "prepare_output env message cr st = (Inr (Suc (length (objects st))), st')"
    using assms e
    by (simp add: prepare_output_def input_chat_def copied_def new_object_def deepcopy_def
        Let_def nth_append)
  with e show ?thesis by blast
qed

lemma chat_iteration_effect:
  assumes "chat_iteration env message cr st = (r, st')"
  shows "memory st' = memory st \<and>
         ((\<exists>e. r = Inl e \<and> objects st' = objects st
               \<and> events st' = events st @ [LlmChat (input_chat env cr st)])
          \<or> (\<exists>resp c quiet. objects st' = objects st @ [resp, c]
               \<and> events st' = events st @ [LlmChat (input_chat env cr st),
                                             LlmResponse (length (objects st)) resp] @ quiet
               \<and> list_all is_tool_or_log quiet))"
proof -
  obtain a w where l: "llm_chat env (world st) (input_chat env cr st) = (a, w)"
    by (cases "llm_chat env (world st) (input_chat env cr st)")
  show ?thesis
  proof (cases a)
    case (Inl e)
    with l assms prepare_output_Inl[of env st cr e w message] show ?thesis
      by (auto simp: chat_iteration_def)
  next
    case (Inr resp)
    with l prepare_output_Inr[of env st cr resp w message] obtain st1
      where e: "enforce_question env message (Suc (length (objects st))) (copied env cr st resp w) = Inr st1"
        and p: "prepare_output env message cr st = (Inr (Suc (length (objects st))), st1)"
      by blast
    from p assms have pa: "process_actions env (Suc (length (objects st))) st1 = (r, st')"
      by (simp add: chat_iteration_def)
    from enforce_question_effect[OF e] obtain evs1 where
      m1: "memory st1 = memory st" and
      len: "length (objects st1) = Suc (Suc (length (objects st)))" and
      same: "\<forall>a. a \<noteq> Suc (length (objects st)) \<longrightarrow>
               objects st1 ! a = (objects st @ [resp, resp]) ! a" and
      ev1: "events st1 = events st @ [LlmChat (input_chat env cr st),
                                       LlmResponse (length (objects st)) resp] @ evs1" and
      q1: "list_all is_tool_or_log evs1"
      by (auto simp: copied_def)
    from process_actions_effect[OF pa] obtain evs2 where
      m2: "memory st' = memory st1" and o2: "objects st' = objects st1" and
      ev2: "events st' = events st1 @ evs2" and q2: "list_all is_tool_or_log evs2"
      by blast
    have "objects st1 = objects st @ [resp, objects st1 ! Suc (length (objects st))]"
    proof (rule nth_equalityI)
      show "length (objects st1) = length (objects st @ [resp, objects st1 ! Suc (length (objects st))])"
        using len by simp
    next
      fix i assume "i < length (objects st1)"
      with len have i: "i < Suc (Suc (length (objects st)))" by simp
      show "objects st1 ! i = (objects st @ [resp, objects st1 ! Suc (length (objects st))]) ! i"
      proof (cases "i = Suc (length (objects st))")
        case True
        then show ?thesis by (simp add: nth_append)
      next
        case False
        with same have "objects st1 ! i = (objects st @ [resp, resp]) ! i" by blast
        also have "\<dots> = (objects st @ [resp, objects st1 ! Suc (length (objects st))]) ! i"
          using False i by (auto simp: nth_append nth_Cons split: nat.splits)
        finally show ?thesis .
      qed
    qed
    with m1 m2 o2 ev1 ev2 q1 q2 show ?thesis
      by (intro conjI disjI2 exI[of _ resp] exI[of _ "objects st1 ! Suc (length (objects st))"]
          exI[of _ "evs1 @ evs2"]) simp_all
  qed
qed

lemma chat_iteration_summary:
  assumes "chat_iteration env message cr st = (r, st')"
  shows "memory st' = memory st \<and>
         (\<exists>evs new. events st' = events st @ evs \<and> objects st' = objects st @ new
            \<and> llm_calls evs = 1 \<and> memory_puts evs = 0
            \<and> (\<forall>a resp. LlmResponse a resp \<in> set evs \<longrightarrow>
                  a = length (objects st) \<and> new \<noteq> [] \<and> new ! 0 = resp))"
proof -
  from chat_iteration_effect[OF assms] have m: "memory st' = memory st" by blast
  from chat_iteration_effect[OF assms] consider
    (failed) "objects st' = objects st"
      "events st' = events st @ [LlmChat (input_chat env cr st)]"
  | (returned) resp c quiet where "objects st' = objects st @ [resp, c]"
      "events st' = events st @ [LlmChat (input_chat env cr st),
                                  LlmResponse (length (objects st)) resp] @ quiet"
      "list_all is_tool_or_log quiet"
    by blast
  then have "\<exists>evs new. events st' = events st @ evs \<and> objects st' = objects st @ new
            \<and> llm_calls evs = 1 \<and> memory_puts evs = 0
            \<and> (\<forall>a resp. LlmResponse a resp \<in> set evs \<longrightarrow>
                  a = length (objects st) \<and> new \<noteq> [] \<and> new ! 0 = resp)"
  proof cases
    case failed
    then show ?thesis
      by (intro exI[of _ "[LlmChat (input_chat env cr st)]"] exI[of _ "[]"])
         (simp add: llm_calls_def memory_puts_def)
  next
    case returned
    then show ?thesis
      by (intro exI[of _ "[LlmChat (input_chat env cr st),
                           LlmResponse (length (objects st)) resp] @ quiet"]
                exI[of _ "[resp, c]"])
         (auto simp: llm_calls_def memory_puts_def quiet_no_llm_chat quiet_no_memory_put
               dest: quiet_no_llm_response)
  qed
  with m show ?thesis by blast
qed

lemma chat_loop_effect:
  "chat_loop env message n cr st = (r, st') \<Longrightarrow>
     memory st' = memory st \<and>
     (\<exists>evs new. events st' = events st @ evs \<and> objects st' = objects st @ new
        \<and> llm_calls evs \<le> n \<and> memory_puts evs = 0
        \<and> (\<forall>a resp. LlmResponse a resp \<in> set evs \<longrightarrow>
              length (objects st) \<le> a \<and> a < length (objects st') \<and> objects st' ! a = resp))"
proof (induction n arbitrary: cr st)
  case 0
  then show ?case by (simp add: llm_calls_def memory_puts_def)
next
  case (Suc n)
  obtain r1 st1 where it: "chat_iteration env message cr st = (r1, st1)"
    by (cases "chat_iteration env message cr st")
  from chat_iteration_summary[OF it] obtain evs1 new1 where
    m1: "memory st1 = memory st" and
    ev1: "events st1 = events st @ evs1" and
    o1: "objects st1 = objects st @ new1" and
    c1: "llm_calls evs1 = 1" "memory_puts evs1 = 0" and
    r1: "\<forall>a resp. LlmResponse a resp \<in> set evs1 \<longrightarrow>
           a = length (objects st) \<and> new1 \<noteq> [] \<and> new1 ! 0 = resp"
    by blast
  have stop: ?case if "st' = st1"
    using that m1 ev1 o1 c1 r1
    by (intro conjI exI[of _ evs1] exI[of _ new1]) (auto simp: nth_append)
  show ?case
  proof (cases r1)
    case (Inl e)
    with Suc.prems it have "st' = st1" by simp
    then show ?thesis by (rule stop)
  next
    case (Inr p)
    obtain steps d where p: "p = (steps, d)" by (cases p)
    show ?thesis
    proof (cases d)
      case True
      with Suc.prems it Inr p have "st' = st1" by simp
      then show ?thesis by (rule stop)
    next
      case False
      with Suc.prems it Inr p have "chat_loop env message n (cr @ steps) st1 = (r, st')"
        by simp
      from Suc.IH[OF this] obtain evs2 new2 where
        m2: "memory st' = memory st1" and
        ev2: "events st' = events st1 @ evs2" and
        o2: "objects st' = objects st1 @ new2" and
        c2: "llm_calls evs2 \<le> n" "memory_puts evs2 = 0" and
        r2: "\<forall>a resp. LlmResponse a resp \<in> set evs2 \<longrightarrow>
               length (objects st1) \<le> a \<and> a < length (objects st') \<and> objects st' ! a = resp"
        by blast
      have "\<forall>a resp. LlmResponse a resp \<in> set (evs1 @ evs2) \<longrightarrow>
              length (objects st) \<le> a \<and> a < length (objects st') \<and> objects st' ! a = resp"
      proof (intro allI impI)
        fix a resp assume "LlmResponse a resp \<in> set (evs1 @ evs2)"
        then consider "LlmResponse a resp \<in> set evs1" | "LlmResponse a resp \<in> set evs2"
          by auto
        then show "length (objects st) \<le> a \<and> a < length (objects st') \<and> objects st' ! a = resp"
        proof cases
          case 1
          with r1 have "a = length (objects st)" "new1 \<noteq> []" "new1 ! 0 = resp" by blast+
          then show ?thesis using o1 o2 by (simp add: nth_append)
        next
          case 2
          with r2 have "length (objects st1) \<le> a" "a < length (objects st')"
            "objects st' ! a = resp" by blast+
          with o1 show ?thesis by simp
        qed
      qed
      with m1 m2 ev1 ev2 o1 o2 c1 c2 show ?thesis
        by (intro conjI exI[of _ "evs1 @ evs2"] exI[of _ "new1 @ new2"])
           (simp_all add: llm_calls_append memory_puts_append)
    qed
  qed
qed

section \<open>What a call of chat does to the state\<close>

lemma turn_start_effect:
  "memory (turn_start env message h st) =
     (case h of None \<Rightarrow> memory st | Some ms \<Rightarrow> ms)
       @ [\<lparr>content = message @ [CHR 0x0A] @ QUERY_ENGINE_TOOL_ROUTER env, role = User\<rparr>]"
  "events (turn_start env message h st) =
     events st @ (case h of None \<Rightarrow> [] | Some ms \<Rightarrow> [MemorySet ms])
       @ [MemoryPut \<lparr>content = message @ [CHR 0x0A] @ QUERY_ENGINE_TOOL_ROUTER env, role = User\<rparr>]"
  "objects (turn_start env message h st) = objects st"
  "world (turn_start env message h st) = world st"
  by (simp_all add: turn_start_def memory_put_def memory_set_def Let_def split: option.splits)

lemma chat_effect:
  assumes "chat env message h st = (r, st')"
  shows "\<exists>evs new. llm_calls evs \<le> nat (max_iterations env) \<and> memory_puts evs = 0
           \<and> events st' = events (turn_start env message h st) @ evs
                @ (case r of Inl e \<Rightarrow> [] | Inr a \<Rightarrow> [MemoryPut \<lparr>content = response a, role = Assistant\<rparr>])
           \<and> objects st' = objects st @ new
           \<and> (\<forall>a resp. LlmResponse a resp \<in> set evs \<longrightarrow>
                 length (objects st) \<le> a \<and> a < length (objects st') \<and> objects st' ! a = resp)"
proof -
  let ?st0 = "turn_start env message h st"
  obtain r1 st1 where l: "chat_loop env message (nat (max_iterations env)) [] ?st0 = (r1, st1)"
    by (cases "chat_loop env message (nat (max_iterations env)) [] ?st0")
  from chat_loop_effect[OF l] obtain evs new where
    ev: "events st1 = events ?st0 @ evs" and o: "objects st1 = objects st @ new" and
    c: "llm_calls evs \<le> nat (max_iterations env)" "memory_puts evs = 0" and
    rs: "\<forall>a resp. LlmResponse a resp \<in> set evs \<longrightarrow>
           length (objects st) \<le> a \<and> a < length (objects st1) \<and> objects st1 ! a = resp"
    by (auto simp: turn_start_effect)
  have "events st' = events st1
          @ (case r of Inl e \<Rightarrow> [] | Inr a \<Rightarrow> [MemoryPut \<lparr>content = response a, role = Assistant\<rparr>])
        \<and> objects st' = objects st1"
    using assms l by (auto simp: chat_def memory_put_def split: sum.splits)
  with ev o c rs show ?thesis
    by (intro exI[of _ evs] exI[of _ new]) simp
qed

section \<open>Calls to the language model\<close>

text \<open>
  Claim C7. With \<^verbatim>\<open>max_iterations = k\<close>, one call of \<^verbatim>\<open>chat\<close> calls the
  language-model backend at most \<open>k\<close> times, whatever the model, the parser and the
  tools do, and whether \<^verbatim>\<open>chat\<close> returns or raises: the events of the call are
  those before it followed by new ones, and at most \<open>k\<close> of the new ones are calls
  to the model.
\<close>

theorem chat_llm_calls_bounded:
  "\<exists>evs. events (snd (chat env message chat_history st)) = events st @ evs
         \<and> llm_calls evs \<le> nat (max_iterations env)"
proof -
  obtain r st' where c: "chat env message chat_history st = (r, st')"
    by (cases "chat env message chat_history st")
  from chat_effect[OF c] obtain evs where
    "llm_calls evs \<le> nat (max_iterations env)"
    "events st' = events (turn_start env message chat_history st) @ evs
        @ (case r of Inl e \<Rightarrow> [] | Inr a \<Rightarrow> [MemoryPut \<lparr>content = response a, role = Assistant\<rparr>])"
    by blast
  with c show ?thesis
    by (auto simp: turn_start_effect llm_calls_def split: option.splits sum.splits)
qed

theorem chat_llm_calls_bounded_witness:
  "llm_calls (events (snd (chat (example_agent 1) question None (start france_script)))) = 1
   \<and> (\<exists>evs. events (snd (chat (example_agent 1) question None (start france_script)))
               = events (start france_script) @ evs
             \<and> llm_calls evs \<le> nat (max_iterations (example_agent 1 :: string list agent)))"
proof -
  have "llm_calls (events (snd (chat (example_agent 1) question None (start france_script)))) = 1"
    by code_simp
  with chat_llm_calls_bounded[of "example_agent 1" question None "start france_script"]
  show ?thesis by blast
qed

section \<open>Puts into the chat memory\<close>

text \<open>
  Claim C6, amended. A call of \<^verbatim>\<open>chat\<close> that returns a response has put exactly two
  messages into the chat memory, however many rounds it ran: the user's message with
  the router suffix before the loop, and the assistant message with the final response
  after it. A call that ends in an exception has put only the first. The rounds of
  the loop put nothing.
\<close>

theorem chat_memory_puts:
  assumes "chat env message chat_history st = (r, st')"
  shows "\<exists>loop_events. memory_puts loop_events = 0 \<and>
           events st' = events st
             @ (case chat_history of None \<Rightarrow> [] | Some h \<Rightarrow> [MemorySet h])
             @ [MemoryPut \<lparr>content = message @ [CHR 0x0A] @ QUERY_ENGINE_TOOL_ROUTER env,
                            role = User\<rparr>]
             @ loop_events
             @ (case r of Inl e \<Rightarrow> []
                | Inr a \<Rightarrow> [MemoryPut \<lparr>content = response a, role = Assistant\<rparr>])"
proof -
  from chat_effect[OF assms] obtain evs where
    "memory_puts evs = 0"
    "events st' = events (turn_start env message chat_history st) @ evs
        @ (case r of Inl e \<Rightarrow> [] | Inr a \<Rightarrow> [MemoryPut \<lparr>content = response a, role = Assistant\<rparr>])"
    by blast
  then show ?thesis
    by (intro exI[of _ evs]) (simp add: turn_start_effect)
qed

theorem chat_memory_puts_witness:
  "fst (chat (example_agent 10) question None (start france_script)) = Inr \<lparr>response = ''Paris''\<rparr>
   \<and> memory_puts (events (snd (chat (example_agent 10) question None (start france_script)))) = 2"
proof -
  let ?run = "chat (example_agent 10) question None (start france_script)"
  have r: "fst ?run = Inr \<lparr>response = ''Paris''\<rparr>"
    by code_simp
  have "?run = (fst ?run, snd ?run)" by simp
  from chat_memory_puts[OF this] obtain loop_events where
    "memory_puts loop_events = 0"
    "events (snd ?run) = events (start france_script)
       @ [MemoryPut \<lparr>content = question @ [CHR 0x0A]
                        @ QUERY_ENGINE_TOOL_ROUTER (example_agent 10 :: string list agent),
                      role = User\<rparr>]
       @ loop_events
       @ (case fst ?run of Inl e \<Rightarrow> []
          | Inr a \<Rightarrow> [MemoryPut \<lparr>content = response a, role = Assistant\<rparr>])"
    by auto
  with r have "memory_puts (events (snd ?run)) = 2"
    by (simp add: memory_puts_def start_def)
  with r show ?thesis by simp
qed

text \<open>
  A call with one put: the model asks for a tool that raises, the exception leaves
  \<^verbatim>\<open>chat\<close> and line 81 is not reached.
\<close>

theorem chat_memory_puts_counterexample:
  "fst (chat (example_agent 10) question None
          (start [action_completion ''broken_tool'' france_input]))
     = Inl (OtherError ''timeout'')
   \<and> memory_puts (events (snd (chat (example_agent 10) question None
          (start [action_completion ''broken_tool'' france_input])))) = 1"
  by code_simp

section \<open>The object returned by the backend\<close>

text \<open>
  Claim C8. \<^verbatim>\<open>chat\<close> writes only to the deep copies it makes. Every response object
  that existed before the call holds the same value after it, and every object the
  backend returned during the call (the event \<open>LlmResponse a resp\<close> records its
  address and the value returned) still holds that value when \<^verbatim>\<open>chat\<close> ends, whether
  or not the action input was rewritten and whether \<^verbatim>\<open>chat\<close> returns or raises.
\<close>

theorem backend_response_never_mutated:
  assumes "chat env message chat_history st = (r, st')"
  shows "(\<forall>a < length (objects st). objects st' ! a = objects st ! a)
         \<and> (\<exists>evs. events st' = events st @ evs
              \<and> (\<forall>a resp. LlmResponse a resp \<in> set evs \<longrightarrow>
                    length (objects st) \<le> a \<and> a < length (objects st')
                    \<and> objects st' ! a = resp))"
proof -
  from chat_effect[OF assms] obtain evs new where
    ev: "events st' = events (turn_start env message chat_history st) @ evs
        @ (case r of Inl e \<Rightarrow> [] | Inr a \<Rightarrow> [MemoryPut \<lparr>content = response a, role = Assistant\<rparr>])"
    and o: "objects st' = objects st @ new"
    and rs: "\<forall>a resp. LlmResponse a resp \<in> set evs \<longrightarrow>
               length (objects st) \<le> a \<and> a < length (objects st') \<and> objects st' ! a = resp"
    by blast
  let ?evs = "(case chat_history of None \<Rightarrow> [] | Some ms \<Rightarrow> [MemorySet ms])
       @ [MemoryPut \<lparr>content = message @ [CHR 0x0A] @ QUERY_ENGINE_TOOL_ROUTER env, role = User\<rparr>]
       @ evs
       @ (case r of Inl e \<Rightarrow> [] | Inr a \<Rightarrow> [MemoryPut \<lparr>content = response a, role = Assistant\<rparr>])"
  have 1: "events st' = events st @ ?evs"
    using ev by (simp add: turn_start_effect)
  have 2: "LlmResponse a resp \<in> set ?evs \<Longrightarrow> LlmResponse a resp \<in> set evs" for a resp
    by (auto split: option.splits sum.splits)
  from o have "\<forall>a < length (objects st). objects st' ! a = objects st ! a"
    by (simp add: nth_append)
  moreover from 1 2 rs have "\<exists>evs. events st' = events st @ evs
              \<and> (\<forall>a resp. LlmResponse a resp \<in> set evs \<longrightarrow>
                    length (objects st) \<le> a \<and> a < length (objects st')
                    \<and> objects st' ! a = resp)"
    by (intro exI[of _ ?evs]) blast
  ultimately show ?thesis by blast
qed

text \<open>
  In the run on the question about France the action input is rewritten: the copy at
  address 1 has a new content, the object at address 0 is the completion as returned.
\<close>

theorem backend_response_never_mutated_witness:
  "objects (snd (chat (example_agent 10) question None (start france_script))) ! 0
     = \<lparr>raw_content = action_completion ''query_tool'' france_input,
        message_content = action_completion ''query_tool'' france_input\<rparr>
   \<and> raw_content (objects (snd (chat (example_agent 10) question None (start france_script))) ! 1)
     \<noteq> action_completion ''query_tool'' france_input"
proof -
  let ?run = "chat (example_agent 10) question None (start france_script)"
  let ?resp = "\<lparr>raw_content = action_completion ''query_tool'' france_input,
        message_content = action_completion ''query_tool'' france_input\<rparr>"
  have m: "LlmResponse 0 ?resp \<in> set (events (snd ?run))"
    by code_simp
  have c: "raw_content (objects (snd ?run) ! 1) \<noteq> action_completion ''query_tool'' france_input"
    by code_simp
  have "?run = (fst ?run, snd ?run)" by simp
  from backend_response_never_mutated[OF this] obtain evs where
    "events (snd ?run) = events (start france_script) @ evs"
    "\<forall>a resp. LlmResponse a resp \<in> set evs \<longrightarrow> objects (snd ?run) ! a = resp"
    by blast
  with m have "objects (snd ?run) ! 0 = ?resp"
    by (simp add: start_def)
  with c show ?thesis by simp
qed

section \<open>Enforcing the question on the action input\<close>

subsection \<open>The extracted part and the record\<close>

lemma not_py_in_split_from: "\<not> py_in sep s \<Longrightarrow> split_from sep acc s = [acc @ s]"
proof (induction s arbitrary: acc)
  case Nil
  then show ?case by simp
next
  case (Cons c cs)
  then show ?case by simp
qed

lemma split_pieces_py_in:
  "py_split s sep = before # piece # rest \<Longrightarrow> py_in sep s"
  using not_py_in_split_from[of sep s "[]"] by (auto simp: py_split_def)

lemma copied_copy:
  "objects (copied env cr st resp w) ! Suc (length (objects st)) = resp"
  "(objects (copied env cr st resp w))[Suc (length (objects st)) := v] = objects st @ [resp, v]"
  by (simp_all add: copied_def nth_append list_update_append)

lemma prepare_output_marker:
  assumes l: "llm_chat env (world st) (input_chat env cr st) = (Inr resp, w)"
      and s: "py_split (raw_content resp) ACTION_INPUT = before # piece # rest"
  shows "prepare_output env message cr st =
           (Inr (Suc (length (objects st))),
            (case modify_action_input env message (raw_content resp) (py_strip piece) of
               Inr new \<Rightarrow> (copied env cr st resp w)
                  \<lparr>objects := objects st @ [resp, resp\<lparr>raw_content := new, message_content := new\<rparr>]\<rparr>
             | Inl e \<Rightarrow> (copied env cr st resp w)
                  \<lparr>events := events (copied env cr st resp w) @ [LoggingError e]\<rparr>))"
proof -
  from prepare_output_Inr[OF l, of message] obtain st' where
    e: "enforce_question env message (Suc (length (objects st))) (copied env cr st resp w) = Inr st'"
    and p: "prepare_output env message cr st = (Inr (Suc (length (objects st))), st')"
    by blast
  have "py_in ACTION_INPUT (raw_content resp)"
    using s by (rule split_pieces_py_in)
  with e s have "st' = (case modify_action_input env message (raw_content resp) (py_strip piece) of
               Inr new \<Rightarrow> (copied env cr st resp w)
                  \<lparr>objects := objects st @ [resp, resp\<lparr>raw_content := new, message_content := new\<rparr>]\<rparr>
             | Inl e \<Rightarrow> (copied env cr st resp w)
                  \<lparr>events := events (copied env cr st resp w) @ [LoggingError e]\<rparr>)"
    by (auto simp: enforce_question_def Let_def copied_copy split: sum.splits)
  with p show ?thesis by simp
qed

lemma prepare_output_no_marker:
  assumes l: "llm_chat env (world st) (input_chat env cr st) = (Inr resp, w)"
      and s: "\<not> py_in ACTION_INPUT (raw_content resp)"
  shows "prepare_output env message cr st =
           (Inr (Suc (length (objects st))), copied env cr st resp w)"
proof -
  from prepare_output_Inr[OF l, of message] obtain st' where
    e: "enforce_question env message (Suc (length (objects st))) (copied env cr st resp w) = Inr st'"
    and p: "prepare_output env message cr st = (Inr (Suc (length (objects st))), st')"
    by blast
  from e s have "st' = copied env cr st resp w"
    by (simp add: enforce_question_def Let_def copied_copy)
  with p show ?thesis by simp
qed

lemma modify_not_record:
  assumes "\<forall>d. json_loads env part \<noteq> Inr (PDict d)"
  shows "\<exists>e. modify_action_input env message c part = Inl e"
proof (cases "json_loads env part")
  case (Inl e)
  then show ?thesis by (simp add: modify_action_input_def)
next
  case (Inr v)
  with assms have "\<forall>d. v \<noteq> PDict d" by simp
  then have "setitem v ''input'' x = Inl TypeError" for x
    by (cases v) simp_all
  with Inr show ?thesis by (simp add: modify_action_input_def)
qed

lemma modify_record:
  assumes "json_loads env part = Inr (PDict d)"
  shows "modify_action_input env message c part =
           Inr (py_replace c part
                  (json_dumps env
                     (PDict (dict_set d ''input'' (PStr (QUERY_ENGINE_PROMPT_FORMATTER env message))))))"
  using assms by (simp add: modify_action_input_def)

lemma dict_set_lookup: "map_of (dict_set d k v) k = Some v"
  by (induction d) auto

lemma dict_set_others: "k' \<noteq> k \<Longrightarrow> map_of (dict_set d k v) k' = map_of d k'"
  by (induction d) auto

lemma dict_set_keys: "k \<in> fst ` set d \<Longrightarrow> map fst (dict_set d k v) = map fst d"
  by (induction d) force+

lemma dict_set_new: "k \<notin> fst ` set d \<Longrightarrow> dict_set d k v = d @ [(k, v)]"
  by (induction d) auto

subsection \<open>An action input that is not a record\<close>

text \<open>
  Claim C5. The model returned \<open>resp\<close>, the marker occurs in its raw content, and
  the part extracted after the first marker does not parse as a record: either
  \<^verbatim>\<open>json.loads\<close> raises or it returns something that is not a dict, on which the
  assignment raises. Then lines 46 to 71 do not raise: the error is logged, nothing
  else is, and the copy that goes on to \<^verbatim>\<open>_process_actions\<close> has the value \<open>resp\<close>
  of the object the backend returned.
\<close>

theorem malformed_action_input_falls_back:
  assumes "llm_chat env (world st) (input_chat env cr st) = (Inr resp, w)"
      and "py_split (raw_content resp) ACTION_INPUT = before # piece # rest"
      and "\<forall>d. json_loads env (py_strip piece) \<noteq> Inr (PDict d)"
  shows "\<exists>e st'. prepare_output env message cr st = (Inr (Suc (length (objects st))), st')
           \<and> objects st' = objects st @ [resp, resp]
           \<and> events st' = events st @ [LlmChat (input_chat env cr st),
                                         LlmResponse (length (objects st)) resp,
                                         LoggingError e]
           \<and> chat_iteration env message cr st
                = process_actions env (Suc (length (objects st))) st'"
proof -
  from modify_not_record[OF assms(3)] obtain e where
    m: "modify_action_input env message (raw_content resp) (py_strip piece) = Inl e"
    by blast
  let ?st' = "(copied env cr st resp w)
                \<lparr>events := events (copied env cr st resp w) @ [LoggingError e]\<rparr>"
  have p: "prepare_output env message cr st = (Inr (Suc (length (objects st))), ?st')"
    using prepare_output_marker[OF assms(1,2), of message] m by simp
  moreover have "objects ?st' = objects st @ [resp, resp]"
    by (simp add: copied_def)
  moreover have "events ?st' = events st @ [LlmChat (input_chat env cr st),
                                         LlmResponse (length (objects st)) resp,
                                         LoggingError e]"
    by (simp add: copied_def)
  moreover have "chat_iteration env message cr st
                = process_actions env (Suc (length (objects st))) ?st'"
    using p by (simp add: chat_iteration_def)
  ultimately show ?thesis by blast
qed

text \<open>
  The run on a completion whose action input is the bare text
  \<^verbatim>\<open>capital of France\<close>.
\<close>

theorem malformed_action_input_falls_back_witness:
  "fst (prepare_output (example_agent 10) question [] (asked [not_json_completion])) = Inr 1
   \<and> objects (snd (prepare_output (example_agent 10) question [] (asked [not_json_completion])))
       = [completion not_json_completion, completion not_json_completion]"
proof -
  let ?st = "asked [not_json_completion]"
  have l: "llm_chat (example_agent 10) (world ?st) (input_chat (example_agent 10) [] ?st)
             = (Inr (completion not_json_completion), [])"
    by code_simp
  have s: "py_split (raw_content (completion not_json_completion)) ACTION_INPUT
             = ''Thought: look it up. Action: query_tool '' # '' capital of France'' # []"
    by code_simp
  have "json_loads (example_agent 10 :: string list agent) (py_strip '' capital of France'')
          = Inl JSONDecodeError"
    by code_simp
  then have n: "\<forall>d. json_loads (example_agent 10 :: string list agent)
                       (py_strip '' capital of France'') \<noteq> Inr (PDict d)"
    by simp
  have o: "objects ?st = []"
    by code_simp
  from malformed_action_input_falls_back[OF l s n, of question] o show ?thesis
    by auto
qed

subsection \<open>A record with an input field\<close>

text \<open>
  Claim C4, amended. The model returned \<open>resp\<close>; the text between the first marker
  and the next marker or the end of the completion, stripped, parses as a whole as a
  record \<open>d\<close> with an \<^verbatim>\<open>input\<close> field; and that text occurs once in the completion
  (\<^verbatim>\<open>content.split(part) == [pre, post]\<close>). Then the record written back has the
  template applied to the question under \<^verbatim>\<open>input\<close>, every other field and the order
  of the fields are as in \<open>d\<close>, and both content fields of the copy are the completion
  with the dumped record in the place of the extracted text: \<open>pre\<close> and \<open>post\<close> are
  untouched.
\<close>

theorem action_input_rewritten:
  assumes "llm_chat env (world st) (input_chat env cr st) = (Inr resp, w)"
      and "py_split (raw_content resp) ACTION_INPUT = before # piece # rest"
      and "json_loads env (py_strip piece) = Inr (PDict d)"
      and "''input'' \<in> fst ` set d"
      and "py_split (raw_content resp) (py_strip piece) = [pre, post]"
  shows "\<exists>d' new.
           d' = dict_set d ''input'' (PStr (QUERY_ENGINE_PROMPT_FORMATTER env message))
         \<and> map_of d' ''input'' = Some (PStr (QUERY_ENGINE_PROMPT_FORMATTER env message))
         \<and> (\<forall>k. k \<noteq> ''input'' \<longrightarrow> map_of d' k = map_of d k)
         \<and> map fst d' = map fst d
         \<and> raw_content resp = pre @ py_strip piece @ post
         \<and> new = pre @ json_dumps env (PDict d') @ post
         \<and> prepare_output env message cr st =
             (Inr (Suc (length (objects st))),
              (copied env cr st resp w)
                \<lparr>objects := objects st
                     @ [resp, resp\<lparr>raw_content := new, message_content := new\<rparr>]\<rparr>)"
proof -
  let ?d' = "dict_set d ''input'' (PStr (QUERY_ENGINE_PROMPT_FORMATTER env message))"
  let ?new = "pre @ json_dumps env (PDict ?d') @ post"
  have m: "modify_action_input env message (raw_content resp) (py_strip piece) = Inr ?new"
    using modify_record[OF assms(3)] split_once(2)[OF assms(5)] by simp
  have "prepare_output env message cr st =
             (Inr (Suc (length (objects st))),
              (copied env cr st resp w)
                \<lparr>objects := objects st
                     @ [resp, resp\<lparr>raw_content := ?new, message_content := ?new\<rparr>]\<rparr>)"
    using prepare_output_marker[OF assms(1,2), of message] m by simp
  with split_once(1)[OF assms(5)] dict_set_keys[OF assms(4)] show ?thesis
    by (intro exI[of _ ?d'] exI[of _ ?new]) (simp add: dict_set_lookup dict_set_others)
qed

text \<open>
  The run on the question about France.
\<close>

theorem action_input_rewritten_witness:
  "raw_content (objects (snd (prepare_output (example_agent 10) question [] (asked france_script))) ! 1)
     = action_completion ''query_tool''
         (flat_dumps (PDict [(''input'', PStr (''Answer thoroughly: '' @ question))]))"
proof -
  let ?st = "asked france_script"
  let ?c = "action_completion ''query_tool'' france_input"
  have l: "llm_chat (example_agent 10) (world ?st) (input_chat (example_agent 10) [] ?st)
             = (Inr (completion ?c), [answer_completion])"
    by code_simp
  have s: "py_split (raw_content (completion ?c)) ACTION_INPUT
             = ''Thought: look it up. Action: query_tool '' # ('' '' @ france_input) # []"
    by code_simp
  have j: "json_loads (example_agent 10 :: string list agent) (py_strip ('' '' @ france_input))
             = Inr (PDict [(''input'', PStr ''capital of France'')])"
    by code_simp
  have i: "''input'' \<in> fst ` set [(''input'', PStr ''capital of France'')]"
    by simp
  have t: "py_split (raw_content (completion ?c)) (py_strip ('' '' @ france_input))
             = [''Thought: look it up. Action: query_tool Action Input: '', '''']"
    by code_simp
  have o: "objects ?st = []"
    by code_simp
  have d: "''Thought: look it up. Action: query_tool Action Input: ''
             @ json_dumps (example_agent 10 :: string list agent)
                 (PDict (dict_set [(''input'', PStr ''capital of France'')] ''input''
                    (PStr (QUERY_ENGINE_PROMPT_FORMATTER (example_agent 10 :: string list agent) question))))
             @ ''''
           = action_completion ''query_tool''
               (flat_dumps (PDict [(''input'', PStr (''Answer thoroughly: '' @ question))]))"
    by code_simp
  from action_input_rewritten[OF l s j i t, of question] o d show ?thesis
    by auto
qed

text \<open>
  A record between a next-line character and a no-break space: \<^verbatim>\<open>strip\<close> removes
  both, the record parses, and it is rewritten in its place, the two characters staying
  where they are.
\<close>

lemma padded_record_rewritten:
  "raw_content (objects (snd (prepare_output (example_agent 10) question []
                                (asked [padded_completion]))) ! 1)
     = action_completion ''query_tool''
         ([CHR 0x85]
          @ flat_dumps (PDict [(''input'', PStr (''Answer thoroughly: '' @ question))])
          @ [CHR 0xA0])"
  by code_simp

text \<open>
  Two completions that contain the marker followed by a record with an
  \<^verbatim>\<open>input\<close> field, on which the claim as stated fails. In the first the record is
  followed by a line of text: the part after the marker is not JSON as a whole, the
  rewrite is abandoned and the copy keeps the model's own input. In the second the
  thought quotes the record: \<^verbatim>\<open>str.replace\<close> rewrites the quotation in the thought
  as well, outside the span of the action input.
\<close>

theorem action_input_rewritten_counterexample:
  "objects (snd (prepare_output (example_agent 10) question [] (asked [trailing_completion]))) ! 1
     = completion trailing_completion
   \<and> raw_content
       (objects (snd (prepare_output (example_agent 10) question [] (asked [quoting_completion]))) ! 1)
     = ''Thought: send ''
         @ flat_dumps (PDict [(''input'', PStr (''Answer thoroughly: '' @ question))])
         @ ''. Action: query_tool Action Input: ''
         @ flat_dumps (PDict [(''input'', PStr (''Answer thoroughly: '' @ question))])"
  by code_simp

subsection \<open>A record without an input field\<close>

text \<open>
  Claim C10. The model returned \<open>resp\<close> and the part extracted after the first
  marker parses as a record \<open>d\<close> without an \<^verbatim>\<open>input\<close> key. Then lines 46 to 71 do
  not raise, and the record written back is \<open>d\<close> with one more field at its end,
  \<^verbatim>\<open>input\<close>, holding the template applied to the question: both content fields of
  the copy are the completion with the extracted part replaced by that record,
  dumped.
\<close>

theorem missing_input_key_added:
  assumes "llm_chat env (world st) (input_chat env cr st) = (Inr resp, w)"
      and "py_split (raw_content resp) ACTION_INPUT = before # piece # rest"
      and "json_loads env (py_strip piece) = Inr (PDict d)"
      and "''input'' \<notin> fst ` set d"
  shows "\<exists>d' new.
           d' = d @ [(''input'', PStr (QUERY_ENGINE_PROMPT_FORMATTER env message))]
         \<and> map_of d' ''input'' = Some (PStr (QUERY_ENGINE_PROMPT_FORMATTER env message))
         \<and> new = py_replace (raw_content resp) (py_strip piece) (json_dumps env (PDict d'))
         \<and> prepare_output env message cr st =
             (Inr (Suc (length (objects st))),
              (copied env cr st resp w)
                \<lparr>objects := objects st
                     @ [resp, resp\<lparr>raw_content := new, message_content := new\<rparr>]\<rparr>)"
proof -
  let ?v = "PStr (QUERY_ENGINE_PROMPT_FORMATTER env message)"
  let ?d' = "d @ [(''input'', ?v)]"
  let ?new = "py_replace (raw_content resp) (py_strip piece) (json_dumps env (PDict ?d'))"
  have d: "dict_set d ''input'' ?v = ?d'"
    using assms(4) by (rule dict_set_new)
  have m: "modify_action_input env message (raw_content resp) (py_strip piece) = Inr ?new"
    using modify_record[OF assms(3)] d by simp
  have "prepare_output env message cr st =
             (Inr (Suc (length (objects st))),
              (copied env cr st resp w)
                \<lparr>objects := objects st
                     @ [resp, resp\<lparr>raw_content := ?new, message_content := ?new\<rparr>]\<rparr>)"
    using prepare_output_marker[OF assms(1,2), of message] m by simp
  moreover have "map_of ?d' ''input'' = Some ?v"
    using dict_set_lookup[of d "''input''" ?v] d by simp
  ultimately show ?thesis
    by (intro exI[of _ ?d'] exI[of _ ?new]) simp
qed

text \<open>
  The run on an action input that has a \<^verbatim>\<open>topic\<close> and no \<^verbatim>\<open>input\<close>.
\<close>

theorem missing_input_key_added_witness:
  "raw_content (objects (snd (prepare_output (example_agent 10) question []
                                (asked [action_completion ''query_tool'' topic_input]))) ! 1)
     = action_completion ''query_tool''
         (flat_dumps (PDict [(''topic'', PStr ''France''),
                             (''input'', PStr (''Answer thoroughly: '' @ question))]))"
proof -
  let ?c = "action_completion ''query_tool'' topic_input"
  let ?st = "asked [?c]"
  have l: "llm_chat (example_agent 10) (world ?st) (input_chat (example_agent 10) [] ?st)
             = (Inr (completion ?c), [])"
    by code_simp
  have s: "py_split (raw_content (completion ?c)) ACTION_INPUT
             = ''Thought: look it up. Action: query_tool '' # ('' '' @ topic_input) # []"
    by code_simp
  have j: "json_loads (example_agent 10 :: string list agent) (py_strip ('' '' @ topic_input))
             = Inr (PDict [(''topic'', PStr ''France'')])"
    by code_simp
  have i: "''input'' \<notin> fst ` set [(''topic'', PStr ''France'')]"
    by simp
  have o: "objects ?st = []"
    by code_simp
  have d: "py_replace (raw_content (completion ?c)) (py_strip ('' '' @ topic_input))
             (json_dumps (example_agent 10 :: string list agent)
                (PDict ([(''topic'', PStr ''France'')]
                   @ [(''input'', PStr (QUERY_ENGINE_PROMPT_FORMATTER
                                          (example_agent 10 :: string list agent) question))])))
           = action_completion ''query_tool''
               (flat_dumps (PDict [(''topic'', PStr ''France''),
                                   (''input'', PStr (''Answer thoroughly: '' @ question))]))"
    by code_simp
  from missing_input_key_added[OF l s j i, of question] o d show ?thesis
    by auto
qed

section \<open>Exceptions that leave chat\<close>

lemma after_rounds_chat_loop:
  "after_rounds env message j n cr st = Some (n', cr', st') \<Longrightarrow>
     chat_loop env message n cr st = chat_loop env message n' cr' st'"
proof (induction j arbitrary: n cr st)
  case 0
  then show ?case by simp
next
  case (Suc j)
  show ?case
  proof (cases n)
    case 0
    with Suc.prems show ?thesis by simp
  next
    case (Suc m)
    obtain r1 st1 where it: "chat_iteration env message cr st = (r1, st1)"
      by (cases "chat_iteration env message cr st")
    from Suc.prems Suc it obtain steps where
      r1: "r1 = Inr (steps, False)" and
      a: "after_rounds env message j m (cr @ steps) st1 = Some (n', cr', st')"
      by (auto split: sum.splits prod.splits bool.splits if_splits)
    from Suc.IH[OF a] it r1 Suc show ?thesis by simp
  qed
qed

lemma chat_loop_round_raises:
  assumes "chat_iteration env message cr st = (Inl e, st')"
  shows "chat_loop env message (Suc n) cr st = (Inl e, st')"
  using assms by simp

lemma chat_raises:
  assumes "after_rounds env message j (nat (max_iterations env)) []
             (turn_start env message chat_history st) = Some (Suc n, cr, st1)"
      and "chat_iteration env message cr st1 = (Inl e, st')"
  shows "chat env message chat_history st = (Inl e, st')"
  using after_rounds_chat_loop[OF assms(1)] chat_loop_round_raises[OF assms(2), of n]
  by (simp add: chat_def)

lemma example_tools_simps:
  "tools_dict (example_agent k) ''no_such_tool'' = None"
  "tools_dict (example_agent k) ''broken_tool''
     = Some (\<lambda>w kwargs. (Inl (OtherError ''timeout''), w))"
  by (simp_all add: example_agent_def example_tools_def)

lemma asked_first_round:
  "after_rounds (example_agent 10) question 0 (nat (max_iterations (example_agent 10 :: string list agent))) []
     (turn_start (example_agent 10) question None (start script)) = Some (Suc 9, [], asked script)"
  by (simp add: example_agent_def asked_def)

subsection \<open>An action that is not registered\<close>

text \<open>
  Claim C1, amended. In whatever round of a chat turn the parsed step names an
  action that is not a key of the tool registry (\<open>j\<close> rounds have passed and at least
  one is left), the lookup \<^verbatim>\<open>self._tools_dict[reasoning_step.action]\<close> raises
  \<^verbatim>\<open>KeyError\<close>: \<^verbatim>\<open>_process_actions\<close> records no observation and calls no tool, and
  the exception ends the loop and leaves \<^verbatim>\<open>chat\<close>, in the state in which the lookup
  was made. There is no further round and no assistant message.
\<close>

theorem unknown_tool_raises:
  assumes "after_rounds env message j (nat (max_iterations env)) []
             (turn_start env message chat_history st) = Some (Suc n, cr, st1)"
      and "prepare_output env message cr st1 = (Inr output, st2)"
      and "extract_reasoning_step env (objects st2 ! output)
             = Inr (steps @ [ActionReasoningStep thought action action_input], False)"
      and "tools_dict env action = None"
  shows "process_actions env output st2 = (Inl (KeyError action), st2)
         \<and> chat env message chat_history st = (Inl (KeyError action), st2)"
proof -
  have pa: "process_actions env output st2 = (Inl (KeyError action), st2)"
    using assms(3,4) by (simp add: process_actions_def)
  with assms(2) have "chat_iteration env message cr st1 = (Inl (KeyError action), st2)"
    by (simp add: chat_iteration_def)
  from chat_raises[OF assms(1) this] pa show ?thesis by simp
qed

text \<open>
  The run in which the model asks for \<^verbatim>\<open>no_such_tool\<close> in the first round.
\<close>

theorem unknown_tool_raises_witness:
  "chat (example_agent 10) question None (start unknown_tool_script)
     = (Inl (KeyError ''no_such_tool''),
        snd (prepare_output (example_agent 10) question [] (asked unknown_tool_script)))"
proof -
  let ?st2 = "snd (prepare_output (example_agent 10) question [] (asked unknown_tool_script))"
  have p: "prepare_output (example_agent 10) question [] (asked unknown_tool_script) = (Inr 1, ?st2)"
    by code_simp
  have x: "extract_reasoning_step (example_agent 10) (objects ?st2 ! 1)
             = Inr ([] @ [ActionReasoningStep ''Thought: look it up.'' ''no_such_tool''
                            [(''input'', PStr (''Answer thoroughly: '' @ question))]], False)"
    by code_simp
  from unknown_tool_raises[OF asked_first_round p x example_tools_simps(1)]
  show ?thesis by simp
qed

text \<open>
  The same run refutes the claim as stated: \<^verbatim>\<open>chat\<close> raises, the model was
  called once, and the completion in which it would have answered is still unread.
\<close>

theorem unknown_tool_counterexample:
  "fst (chat (example_agent 10) question None (start unknown_tool_script))
     = Inl (KeyError ''no_such_tool'')
   \<and> llm_calls (events (snd (chat (example_agent 10) question None (start unknown_tool_script)))) = 1
   \<and> world (snd (chat (example_agent 10) question None (start unknown_tool_script)))
     = [answer_completion]"
  by code_simp

subsection \<open>A tool that raises\<close>

text \<open>
  Claim C2, amended. In whatever round of a chat turn the tool called raises \<open>e\<close>,
  nothing catches it: \<^verbatim>\<open>_process_actions\<close> raises \<open>e\<close> after the tool call, with
  no observation, and \<open>e\<close> ends the loop and leaves \<^verbatim>\<open>chat\<close>.
\<close>

theorem tool_exception_propagates:
  assumes "after_rounds env message j (nat (max_iterations env)) []
             (turn_start env message chat_history st) = Some (Suc n, cr, st1)"
      and "prepare_output env message cr st1 = (Inr output, st2)"
      and "extract_reasoning_step env (objects st2 ! output)
             = Inr (steps @ [ActionReasoningStep thought action action_input], False)"
      and "tools_dict env action = Some tool"
      and "tool (world st2) action_input = (Inl e, w)"
  shows "process_actions env output st2
           = (Inl e, st2\<lparr>world := w, events := events st2 @ [ToolCall action action_input]\<rparr>)
         \<and> chat env message chat_history st
           = (Inl e, st2\<lparr>world := w, events := events st2 @ [ToolCall action action_input]\<rparr>)"
proof -
  have pa: "process_actions env output st2
           = (Inl e, st2\<lparr>world := w, events := events st2 @ [ToolCall action action_input]\<rparr>)"
    using assms(3,4,5) by (simp add: process_actions_def)
  with assms(2) have "chat_iteration env message cr st1
           = (Inl e, st2\<lparr>world := w, events := events st2 @ [ToolCall action action_input]\<rparr>)"
    by (simp add: chat_iteration_def)
  from chat_raises[OF assms(1) this] pa show ?thesis by simp
qed

text \<open>
  The run in which the model asks for the tool that raises.
\<close>

theorem tool_exception_propagates_witness:
  "chat (example_agent 10) question None (start broken_tool_script)
     = (Inl (OtherError ''timeout''),
        (snd (prepare_output (example_agent 10) question [] (asked broken_tool_script)))
          \<lparr>world := [answer_completion],
           events := events (snd (prepare_output (example_agent 10) question []
                                    (asked broken_tool_script)))
              @ [ToolCall ''broken_tool''
                   [(''input'', PStr (''Answer thoroughly: '' @ question))]]\<rparr>)"
proof -
  let ?st2 = "snd (prepare_output (example_agent 10) question [] (asked broken_tool_script))"
  have p: "prepare_output (example_agent 10) question [] (asked broken_tool_script) = (Inr 1, ?st2)"
    by code_simp
  have x: "extract_reasoning_step (example_agent 10) (objects ?st2 ! 1)
             = Inr ([] @ [ActionReasoningStep ''Thought: look it up.'' ''broken_tool''
                            [(''input'', PStr (''Answer thoroughly: '' @ question))]], False)"
    by code_simp
  have w: "world ?st2 = [answer_completion]"
    by code_simp
  have t: "(\<lambda>w kwargs. (Inl (OtherError ''timeout''), w)) (world ?st2)
             [(''input'', PStr (''Answer thoroughly: '' @ question))]
           = (Inl (OtherError ''timeout'') :: exn + string, [answer_completion])"
    using w by simp
  from tool_exception_propagates[OF asked_first_round p x example_tools_simps(2) t]
  show ?thesis by simp
qed

text \<open>
  The same run refutes the claim as stated: the tool's exception leaves
  \<^verbatim>\<open>chat\<close>, and the model is not called again with an observation.
\<close>

theorem tool_exception_counterexample:
  "fst (chat (example_agent 10) question None (start broken_tool_script))
     = Inl (OtherError ''timeout'')
   \<and> llm_calls (events (snd (chat (example_agent 10) question None (start broken_tool_script)))) = 1
   \<and> world (snd (chat (example_agent 10) question None (start broken_tool_script)))
     = [answer_completion]"
  by code_simp

subsection \<open>A budget that runs out\<close>

text \<open>
  Claim C3, amended. When all \<^verbatim>\<open>max_iterations\<close> rounds pass without a terminal
  step and without an exception, \<^verbatim>\<open>chat\<close> hands the trace to the inherited
  \<^verbatim>\<open>_get_response\<close>, as it does after a terminal step. It returns the response, and
  puts it into the memory, when \<^verbatim>\<open>_get_response\<close> returns one; when
  \<^verbatim>\<open>_get_response\<close> raises, the exception leaves \<^verbatim>\<open>chat\<close>. \<^verbatim>\<open>chat\<close> has no
  fallback of its own.
\<close>

theorem exhausted_budget_get_response:
  assumes "after_rounds env message (nat (max_iterations env)) (nat (max_iterations env)) []
             (turn_start env message chat_history st) = Some (0, cr, st1)"
  shows "chat env message chat_history st =
           (case get_response env cr of
              Inl e \<Rightarrow> (Inl e, st1)
            | Inr r \<Rightarrow> (Inr r, memory_put \<lparr>content = response r, role = Assistant\<rparr> st1))"
  using after_rounds_chat_loop[OF assms] by (simp add: chat_def)

text \<open>
  A budget of two rounds and a model that asks for the query tool each time.
\<close>

theorem exhausted_budget_get_response_witness:
  "chat (example_agent 2) question None (start endless_script)
     = (Inl AttributeError,
        snd (chat_loop (example_agent 2) question 2 []
               (turn_start (example_agent 2) question None (start endless_script))))"
proof -
  let ?st0 = "turn_start (example_agent 2) question None (start endless_script)"
  let ?cr = "fst (snd (the (after_rounds (example_agent 2) question 2 2 [] ?st0)))"
  let ?st1 = "snd (snd (the (after_rounds (example_agent 2) question 2 2 [] ?st0)))"
  have a: "after_rounds (example_agent 2) question
             (nat (max_iterations (example_agent 2 :: string list agent)))
             (nat (max_iterations (example_agent 2 :: string list agent))) [] ?st0
           = Some (0, ?cr, ?st1)"
    by code_simp
  have g: "get_response (example_agent 2) ?cr = Inl AttributeError"
    by code_simp
  have s: "?st1 = snd (chat_loop (example_agent 2) question 2 [] ?st0)"
    by code_simp
  from exhausted_budget_get_response[OF a] g s show ?thesis by simp
qed

text \<open>
  A budget of one round, used by a round that is not terminal: \<^verbatim>\<open>chat\<close> raises
  \<^verbatim>\<open>AttributeError\<close>, because the last step of the trace is an observation and has
  no \<^verbatim>\<open>response\<close>.
\<close>

theorem exhausted_budget_counterexample:
  "after_rounds (example_agent 1) question 1 1 []
       (turn_start (example_agent 1) question None (start endless_script)) \<noteq> None
   \<and> fst (chat (example_agent 1) question None (start endless_script)) = Inl AttributeError"
  by code_simp

section \<open>The shape of the trace\<close>

lemma step_kinds:
  "is_action s \<Longrightarrow> \<not> is_observation s"
  "is_response s \<Longrightarrow> \<not> is_observation s"
  "is_action s \<Longrightarrow> \<not> is_response s"
  by (cases s; simp)+

lemma pairs_append:
  "action_observation_pairs xs \<Longrightarrow>
     action_observation_pairs (xs @ ys) = action_observation_pairs ys"
  by (induction xs rule: action_observation_pairs.induct) simp_all

lemma pairs_index:
  "action_observation_pairs xs \<Longrightarrow> i < length xs \<Longrightarrow>
     (even i \<longrightarrow> is_action (xs ! i)) \<and> (odd i \<longrightarrow> is_observation (xs ! i))"
proof (induction xs arbitrary: i rule: action_observation_pairs.induct)
  case 1
  then show ?case by simp
next
  case (2 a b steps)
  show ?case
  proof (cases i)
    case 0
    with "2.prems" show ?thesis by simp
  next
    case (Suc j)
    show ?thesis
    proof (cases j)
      case 0
      with Suc "2.prems" show ?thesis by simp
    next
      case (Suc k)
      with \<open>i = Suc j\<close> "2.prems" have "k < length steps" "action_observation_pairs steps"
        by simp_all
      from "2.IH"[OF this(2,1)] Suc \<open>i = Suc j\<close> show ?thesis by simp
    qed
  qed
next
  case (3 a)
  then show ?case by simp
qed

lemma pairs_even_length: "action_observation_pairs xs \<Longrightarrow> even (length xs)"
  by (induction xs rule: action_observation_pairs.induct) simp_all

lemma pairs_observation_preceded:
  assumes "action_observation_pairs xs" "i < length xs" "is_observation (xs ! i)"
  shows "0 < i \<and> is_action (xs ! (i - 1))"
proof -
  from pairs_index[OF assms(1,2)] assms(3) have o: "odd i"
    using step_kinds(1) by blast
  then have "0 < i" "even (i - 1)" "i - 1 < length xs"
    using assms(2) by (auto elim: oddE)
  with pairs_index[OF assms(1), of "i - 1"] show ?thesis by simp
qed

lemma ended_trace_observation_preceded:
  assumes "action_observation_pairs xs" "is_response s" "i < length (xs @ [s])"
    "is_observation ((xs @ [s]) ! i)"
  shows "0 < i \<and> is_action ((xs @ [s]) ! (i - 1))"
proof (cases "i < length xs")
  case True
  with assms(4) have "is_observation (xs ! i)" by (simp add: nth_append)
  from pairs_observation_preceded[OF assms(1) True this]
  have "0 < i" "is_action (xs ! (i - 1))" by simp_all
  moreover from True have "i - 1 < length xs" by simp
  ultimately show ?thesis by (simp add: nth_append)
next
  case False
  with assms(3) have "i = length xs" by simp
  with assms(4) have "is_observation s" by simp
  with step_kinds(2)[OF assms(2)] show ?thesis by simp
qed

lemma round_steps:
  assumes contract: "\<forall>out steps is_done. extract_reasoning_step env out = Inr (steps, is_done)
                       \<longrightarrow> (\<exists>s. steps = [s] \<and> (is_done \<longleftrightarrow> is_response s))"
      and it: "chat_iteration env message cr st = (Inr (steps, is_done), st')"
  shows "(is_done \<and> (\<exists>s. steps = [s] \<and> is_response s))
         \<or> (\<not> is_done \<and> (\<exists>a b. steps = [a, b] \<and> is_action a \<and> is_observation b))"
proof -
  from it obtain out st1 where pa: "process_actions env out st1 = (Inr (steps, is_done), st')"
    by (auto simp: chat_iteration_def split: prod.splits sum.splits)
  then obtain cur d where x: "extract_reasoning_step env (objects st1 ! out) = Inr (cur, d)"
    by (auto simp: process_actions_def split: sum.splits)
  with contract obtain s where s: "cur = [s]" "d \<longleftrightarrow> is_response s" by blast
  show ?thesis
  proof (cases d)
    case True
    with pa x s show ?thesis by (auto simp: process_actions_def)
  next
    case False
    with pa x s show ?thesis
      by (auto simp: process_actions_def
          split: reasoning_step.splits option.splits prod.splits sum.splits)
  qed
qed

lemma chat_loop_trace:
  assumes contract: "\<forall>out steps is_done. extract_reasoning_step env out = Inr (steps, is_done)
                       \<longrightarrow> (\<exists>s. steps = [s] \<and> (is_done \<longleftrightarrow> is_response s))"
  shows "action_observation_pairs cr \<Longrightarrow> chat_loop env message n cr st = (Inr cr', st') \<Longrightarrow>
           (\<exists>pairs s. cr' = pairs @ [s] \<and> is_response s \<and> action_observation_pairs pairs)
           \<or> (action_observation_pairs cr' \<and> length cr' = length cr + 2 * n)"
proof (induction n arbitrary: cr st)
  case 0
  then show ?case by simp
next
  case (Suc n)
  obtain r1 st1 where it: "chat_iteration env message cr st = (r1, st1)"
    by (cases "chat_iteration env message cr st")
  with Suc.prems(2) obtain steps is_done where r1: "r1 = Inr (steps, is_done)"
    by (cases r1) auto
  from round_steps[OF contract it[unfolded r1]] consider
    (final) s where "is_done" "steps = [s]" "is_response s"
  | (round) a b where "\<not> is_done" "steps = [a, b]" "is_action a" "is_observation b"
    by blast
  then show ?case
  proof cases
    case final
    with Suc.prems it r1 have "cr' = cr @ [s]" by simp
    with final Suc.prems(1) show ?thesis by blast
  next
    case round
    with Suc.prems it r1 have l: "chat_loop env message n (cr @ [a, b]) st1 = (Inr cr', st')"
      by simp
    have "action_observation_pairs (cr @ [a, b])"
      using Suc.prems(1) round by (simp add: pairs_append)
    from Suc.IH[OF this l] show ?thesis by simp
  qed
qed

text \<open>
  Claim C9. The inherited parser returns one step for a completion, and reports that
  it is done exactly when that step is a final answer. Then every trace with which the
  loop of a turn ends has each observation right after an action, so that no observation
  is first and no two are adjacent; and the trace is either whole rounds (an action
  and its observation each) followed by one final answer, or whole rounds only, one
  for each round of the budget.
\<close>

theorem trace_alternates:
  assumes "\<forall>out steps is_done. extract_reasoning_step env out = Inr (steps, is_done)
             \<longrightarrow> (\<exists>s. steps = [s] \<and> (is_done \<longleftrightarrow> is_response s))"
      and "chat_loop env message n [] st = (Inr cr, st')"
  shows "(\<forall>i<length cr. is_observation (cr ! i) \<longrightarrow> 0 < i \<and> is_action (cr ! (i - 1)))
         \<and> (\<forall>i. Suc i < length cr \<longrightarrow> \<not> (is_observation (cr ! i) \<and> is_observation (cr ! Suc i)))
         \<and> ((\<exists>pairs s. cr = pairs @ [s] \<and> is_response s \<and> action_observation_pairs pairs)
            \<or> (action_observation_pairs cr \<and> length cr = 2 * n))"
proof -
  from chat_loop_trace[OF assms(1) _ assms(2)]
  have shape: "(\<exists>pairs s. cr = pairs @ [s] \<and> is_response s \<and> action_observation_pairs pairs)
            \<or> (action_observation_pairs cr \<and> length cr = 2 * n)"
    by simp
  have pre: "0 < i \<and> is_action (cr ! (i - 1))" if "i < length cr" "is_observation (cr ! i)" for i
    using shape that ended_trace_observation_preceded pairs_observation_preceded by blast
  have "\<not> (is_observation (cr ! i) \<and> is_observation (cr ! Suc i))" if "Suc i < length cr" for i
  proof
    assume a: "is_observation (cr ! i) \<and> is_observation (cr ! Suc i)"
    with pre[of "Suc i"] that have "is_action (cr ! i)" by simp
    with a step_kinds(1) show False by blast
  qed
  with pre shape show ?thesis by blast
qed

lemma example_extract_contract:
  "\<forall>out steps is_done. extract_reasoning_step (example_agent k) out = Inr (steps, is_done)
     \<longrightarrow> (\<exists>s. steps = [s] \<and> (is_done \<longleftrightarrow> is_response s))"
  by (auto simp: example_agent_def example_extract_def Let_def
      split: list.splits sum.splits pyval.splits)

text \<open>
  The run on the question about France: an action, its observation, the answer.
\<close>

theorem trace_alternates_witness:
  "fst (chat_loop (example_agent 10) question 10 [] (asked france_script))
     = Inr [ActionReasoningStep ''Thought: look it up.'' ''query_tool''
              [(''input'', PStr (''Answer thoroughly: '' @ question))],
            ObservationReasoningStep ''Paris'',
            ResponseReasoningStep ''Thought: I know.'' ''Paris'']
   \<and> (\<exists>pairs s. [ActionReasoningStep ''Thought: look it up.'' ''query_tool''
                     [(''input'', PStr (''Answer thoroughly: '' @ question))],
                   ObservationReasoningStep ''Paris'',
                   ResponseReasoningStep ''Thought: I know.'' ''Paris''] = pairs @ [s]
          \<and> is_response s \<and> action_observation_pairs pairs)"
proof -
  let ?cr = "[ActionReasoningStep ''Thought: look it up.'' ''query_tool''
              [(''input'', PStr (''Answer thoroughly: '' @ question))],
            ObservationReasoningStep ''Paris'',
            ResponseReasoningStep ''Thought: I know.'' ''Paris'']"
  let ?run = "chat_loop (example_agent 10) question 10 [] (asked france_script)"
  have f: "fst ?run = Inr ?cr"
    by code_simp
  then have "?run = (Inr ?cr, snd ?run)"
    by (metis prod.collapse)
  from trace_alternates[OF example_extract_contract this]
  have "(\<exists>pairs s. ?cr = pairs @ [s] \<and> is_response s \<and> action_observation_pairs pairs)
        \<or> (action_observation_pairs ?cr \<and> length ?cr = 2 * 10)"
    by blast
  then have "\<exists>pairs s. ?cr = pairs @ [s] \<and> is_response s \<and> action_observation_pairs pairs"
    by simp
  with f show ?thesis by blast
qed

end
